theory Spec2Isabelle
  imports Complex_Main
begin

section \<open>Draftly AI: the OpenRouter client of \<open>src/lib/ai-utils.ts\<close>\<close>

text \<open>
  The module has a schema compiler (\<open>zodToJsonSchema\<close>), a multi-step completion loop
  (\<open>generateText\<close>), a single-step structured generation (\<open>generateObject\<close>) and two
  helpers (\<open>stepCountIs\<close>, \<open>createTool\<close>). Each is embedded below as a HOL function
  with the name it has in the source. A thrown exception is the \<open>Inl\<close> of a sum type, a
  normal return the \<open>Inr\<close>.

  What the module takes from outside is made explicit:
  \<^item> the built-ins \<open>JSON.parse\<close>, \<open>JSON.stringify\<close> and \<open>fetch\<close> are fields of the
    record \<open>env\<close>, so every theorem holds for whatever they compute;
  \<^item> a Zod schema is a value of the datatype \<open>zod\<close>, with the two methods the module
    calls on it (\<open>parse\<close> and \<open>isOptional\<close>) as functions on that datatype;
  \<^item> the endpoint and the executor of a tool are functions of what they are sent, and a
    rejected promise is a thrown error. Within one run no two requests are equal (the
    transcript grows with every step), so every sequence of replies an endpoint can
    give in a run is given by some such function.

  The request is its JSON body; the HTTP headers, fixed in the source, are left out.
\<close>

subsection \<open>JavaScript values\<close>

text \<open>
  The values that \<open>JSON.parse\<close> yields, tools receive and return, and Zod validates.
  \<open>Undefined\<close> is what reading a missing property gives. A number is kept as the
  rational it denotes. An object is the list of its own properties in the order
  \<open>Object.entries\<close> yields them.
\<close>

datatype jsval =
    Undefined
  | Null
  | Bool bool
  | Number rat
  | Str string
  | Arr "jsval list"
  | Obj "(string \<times> jsval) list"

subsection \<open>Zod schemas\<close>

text \<open>
  The seven kinds \<open>zodToJsonSchema\<close> tests with \<open>instanceof\<close>, and \<open>ZodOther\<close> for
  every other \<open>z.ZodType\<close> (any, nullable, default, union, effects, ...), which the
  compiler reaches in its last line. A node carries what the compiler reads of it (the
  shape of an object, the \<open>description\<close> where it is copied, the element and the
  \<open>minLength\<close>/\<open>maxLength\<close> values of an array, the values of an enum, the inner
  type of an optional) and what decides how Zod parses with it:
  \<^item> an object has its \<open>unknownKeys\<close> mode (\<open>Strip\<close> is the default of \<open>z.object\<close>,
    \<open>Strict\<close> and \<open>Passthrough\<close> come from \<open>.strict()\<close> and \<open>.passthrough()\<close>) and
    its \<open>catchall\<close> schema (\<open>None\<close> is the default, \<open>ZodNever\<close>);
  \<^item> a string, a number or a boolean may coerce (\<open>z.coerce.string()\<close> and so on are
    instances of \<open>ZodString\<close>, \<open>ZodNumber\<close>, \<open>ZodBoolean\<close>). A coercing string or
    number node carries the runtime's \<open>String\<close> or \<open>Number\<close> on the values where the
    conversion formats or reads a number's text; on the other values the conversion is
    written out below;
  \<^item> a string or a number has its checks (\<open>.min()\<close>, \<open>.email()\<close>, \<open>.trim()\<close>, ...):
    for a string a function that rejects with issues or gives the string the checks
    leave, for a number the issues the checks raise; an array has its \<open>exactLength\<close>;
  \<^item> a \<open>ZodOther\<close> node carries its own parse function, since nothing else of it is
    known.
\<close>

datatype zod_issue =
    invalid_type
  | too_small
  | too_big
  | invalid_enum_value
  | unrecognized_keys
  | custom_issue string

datatype unknown_keys = Strip | Strict | Passthrough

datatype zod =
    ZodObject "(string \<times> zod) list" unknown_keys "zod option"
  | ZodString "(jsval \<Rightarrow> string) option" "string \<Rightarrow> zod_issue list + string" "string option"
  | ZodNumber "(jsval \<Rightarrow> rat option) option" "rat \<Rightarrow> zod_issue list" "string option"
  | ZodBoolean bool "string option"
  | ZodArray zod "int option" "int option" "int option" "string option"
  | ZodEnum "string list" "string option"
  | ZodOptional zod
  | ZodOther "jsval \<Rightarrow> zod_issue list + jsval"

text \<open>
  JavaScript's \<open>String(v)\<close>, \<open>Number(v)\<close> (\<open>None\<close> is \<open>NaN\<close>) and \<open>Boolean(v)\<close>.
  The parameter \<open>f\<close> is the conversion on the values not written out here.
\<close>

definition coerce_String :: "(jsval \<Rightarrow> string) \<Rightarrow> jsval \<Rightarrow> string" where
  "coerce_String f v =
     (case v of
        Undefined \<Rightarrow> ''undefined''
      | Null \<Rightarrow> ''null''
      | Bool b \<Rightarrow> (if b then ''true'' else ''false'')
      | Str s \<Rightarrow> s
      | _ \<Rightarrow> f v)"

definition coerce_Number :: "(jsval \<Rightarrow> rat option) \<Rightarrow> jsval \<Rightarrow> rat option" where
  "coerce_Number f v =
     (case v of
        Undefined \<Rightarrow> None
      | Null \<Rightarrow> Some 0
      | Bool b \<Rightarrow> Some (if b then 1 else 0)
      | Number n \<Rightarrow> Some n
      | _ \<Rightarrow> f v)"

definition coerce_Boolean :: "jsval \<Rightarrow> bool" where
  "coerce_Boolean v =
     (case v of
        Undefined \<Rightarrow> False
      | Null \<Rightarrow> False
      | Bool b \<Rightarrow> b
      | Number n \<Rightarrow> n \<noteq> 0
      | Str s \<Rightarrow> s \<noteq> []
      | _ \<Rightarrow> True)"

text \<open>
  Zod's parsing (version 3, which the source's \<open>_def.shape()\<close> belongs to). Zod collects
  the issues of all parts before it fails. An object parses its declared keys first;
  then, without a catchall, \<open>Strip\<close> drops the keys the shape does not declare, \<open>Strict\<close>
  raises an issue when there is one, and \<open>Passthrough\<close> keeps them; with a catchall,
  they are parsed with it. A declared key is set in the result when its value is defined
  or the input has the key. The value of a declared key is read as an own property of
  the input (a shape is taken not to declare a name that objects inherit).
\<close>

fun collect :: "(zod_issue list + 'a) list \<Rightarrow> zod_issue list + 'a list" where
  "collect [] = Inr []"
| "collect (r # rs) =
     (case r of
        Inl i \<Rightarrow> (case collect rs of Inl js \<Rightarrow> Inl (i @ js) | Inr _ \<Rightarrow> Inl i)
      | Inr v \<Rightarrow> (case collect rs of Inl js \<Rightarrow> Inl js | Inr vs \<Rightarrow> Inr (v # vs)))"

definition own_property :: "(string \<times> jsval) list \<Rightarrow> string \<Rightarrow> jsval" where
  "own_property kvs k = (case map_of kvs k of None \<Rightarrow> Undefined | Some v \<Rightarrow> v)"

definition length_issues :: "nat \<Rightarrow> int option \<Rightarrow> int option \<Rightarrow> int option \<Rightarrow> zod_issue list" where
  "length_issues len exact mn mx =
     (case exact of
        Some n \<Rightarrow> if int len > n then [too_big] else if int len < n then [too_small] else []
      | None \<Rightarrow> [])
     @ (case mn of Some n \<Rightarrow> if int len < n then [too_small] else [] | None \<Rightarrow> [])
     @ (case mx of Some n \<Rightarrow> if int len > n then [too_big] else [] | None \<Rightarrow> [])"

fun safeParse :: "zod \<Rightarrow> jsval \<Rightarrow> zod_issue list + jsval" where
  "safeParse (ZodString co checks d) v =
     (case (case co of None \<Rightarrow> v | Some f \<Rightarrow> Str (coerce_String f v)) of
        Str s \<Rightarrow> (case checks s of Inl js \<Rightarrow> Inl js | Inr s' \<Rightarrow> Inr (Str s'))
      | _ \<Rightarrow> Inl [invalid_type])"
| "safeParse (ZodNumber co checks d) v =
     (case (case co of
              None \<Rightarrow> (case v of Number n \<Rightarrow> Some n | _ \<Rightarrow> None)
            | Some f \<Rightarrow> coerce_Number f v) of
        Some n \<Rightarrow> if checks n = [] then Inr (Number n) else Inl (checks n)
      | None \<Rightarrow> Inl [invalid_type])"
| "safeParse (ZodBoolean co d) v =
     (case (if co then Bool (coerce_Boolean v) else v) of
        Bool b \<Rightarrow> Inr (Bool b)
      | _ \<Rightarrow> Inl [invalid_type])"
| "safeParse (ZodEnum vals d) v =
     (case v of
        Str s \<Rightarrow> if s \<in> set vals then Inr v else Inl [invalid_enum_value]
      | _ \<Rightarrow> Inl [invalid_type])"
| "safeParse (ZodOptional inner) v =
     (case v of Undefined \<Rightarrow> Inr Undefined | _ \<Rightarrow> safeParse inner v)"
| "safeParse (ZodArray elem mn mx exact d) v =
     (case v of
        Arr xs \<Rightarrow>
          (case collect (map (safeParse elem) xs) of
             Inl js \<Rightarrow> Inl (length_issues (length xs) exact mn mx @ js)
           | Inr ys \<Rightarrow>
               if length_issues (length xs) exact mn mx = [] then Inr (Arr ys)
               else Inl (length_issues (length xs) exact mn mx))
      | _ \<Rightarrow> Inl [invalid_type])"
| "safeParse (ZodObject shape uk ca) v =
     (case v of
        Obj kvs \<Rightarrow>
          (let extras = filter (\<lambda>(key, x). key \<notin> fst ` set shape) kvs;
               declared = map (\<lambda>(key, s). safeParse s (own_property kvs key)) shape;
               unrecognized =
                 (if ca = None \<and> uk = Strict \<and> extras \<noteq> [] then [Inl [unrecognized_keys]]
                  else []);
               others =
                 (case ca of
                    Some c \<Rightarrow> map (\<lambda>(key, x). (key, safeParse c x)) extras
                  | None \<Rightarrow>
                      if uk = Passthrough
                      then map (\<lambda>(key, x). (key, Inr x))
                             (filter (\<lambda>(key, x). x \<noteq> Undefined) extras)
                      else [])
           in case collect (declared @ unrecognized @ map snd others) of
                Inl js \<Rightarrow> Inl js
              | Inr vs \<Rightarrow>
                  Inr (Obj (filter (\<lambda>(key, x). key \<noteq> ''__proto__''
                                      \<and> (x \<noteq> Undefined \<or> key \<in> fst ` set kvs))
                             (zip (map fst shape @ map fst others) vs))))
      | _ \<Rightarrow> Inl [invalid_type])"
| "safeParse (ZodOther p) v = p v"

text \<open>
  \<open>isOptional()\<close> is Zod's \<open>this.safeParse(undefined).success\<close>: the node accepts
  \<open>undefined\<close>.
\<close>

definition isOptional :: "zod \<Rightarrow> bool" where
  "isOptional s = (case safeParse s Undefined of Inl _ \<Rightarrow> False | Inr _ \<Rightarrow> True)"

subsection \<open>The schema compiler\<close>

text \<open>
  The compiled document. Every object literal the compiler returns has a subset of these
  nine keys; a key the literal leaves out, or sets to \<open>undefined\<close>, is \<open>None\<close> here
  (\<open>JSON.stringify\<close>, the only consumer of the document, omits both).
\<close>

datatype json_schema =
  JsonSchema
    (s_type : string)
    (s_properties : "(string \<times> json_schema) list option")
    (s_required : "string list option")
    (s_additionalProperties : "bool option")
    (s_description : "string option")
    (s_items : "json_schema option")
    (s_minItems : "int option")
    (s_maxItems : "int option")
    (s_enum : "string list option")

text \<open>Lines 47 to 105. The \<open>for\<close> loop over the shape is a map and a filter.\<close>

fun zodToJsonSchema :: "zod \<Rightarrow> json_schema" where
  "zodToJsonSchema (ZodObject shape uk ca) =
     (let properties = map (\<lambda>(key, v). (key, zodToJsonSchema v)) shape;
          required = map fst (filter (\<lambda>(key, v). \<not> isOptional v) shape)
      in JsonSchema ''object'' (Some properties)
           (if length required > 0 then Some required else None)
           (Some False) None None None None None)"
| "zodToJsonSchema (ZodString co checks d) =
     JsonSchema ''string'' None None None d None None None None"
| "zodToJsonSchema (ZodNumber co checks d) =
     JsonSchema ''number'' None None None d None None None None"
| "zodToJsonSchema (ZodBoolean co d) =
     JsonSchema ''boolean'' None None None d None None None None"
| "zodToJsonSchema (ZodArray elem mn mx exact d) =
     JsonSchema ''array'' None None None d (Some (zodToJsonSchema elem)) mn mx None"
| "zodToJsonSchema (ZodEnum vals d) =
     JsonSchema ''string'' None None None d None None None (Some vals)"
| "zodToJsonSchema (ZodOptional inner) = zodToJsonSchema inner"
| "zodToJsonSchema (ZodOther p) = JsonSchema ''string'' None None None None None None None None"

text \<open>Notions the statements about the compiler use.\<close>

fun wrapped_in_Optional :: "zod \<Rightarrow> bool" where
  "wrapped_in_Optional (ZodOptional inner) = True"
| "wrapped_in_Optional _ = False"

fun recognised :: "zod \<Rightarrow> bool" where
  "recognised (ZodOther p) = False"
| "recognised _ = True"

text \<open>
  The recognised nodes that reject \<open>undefined\<close> whatever else they carry: every
  object, number, array and enum, and a string or boolean that does not coerce.
\<close>

fun never_optional :: "zod \<Rightarrow> bool" where
  "never_optional (ZodObject shape uk ca) = True"
| "never_optional (ZodNumber co checks d) = True"
| "never_optional (ZodArray elem mn mx exact d) = True"
| "never_optional (ZodEnum vals d) = True"
| "never_optional (ZodString None checks d) = True"
| "never_optional (ZodBoolean False d) = True"
| "never_optional _ = False"

text \<open>\<open>z.string()\<close>, \<open>z.number()\<close>, \<open>z.boolean()\<close> and \<open>z.object(shape)\<close> as they are made.\<close>

definition z_string :: zod where
  "z_string = ZodString None Inr None"

definition z_number :: zod where
  "z_number = ZodNumber None (\<lambda>n. []) None"

definition z_boolean :: zod where
  "z_boolean = ZodBoolean False None"

definition z_object :: "(string \<times> zod) list \<Rightarrow> zod" where
  "z_object shape = ZodObject shape Strip None"

definition required_list :: "json_schema \<Rightarrow> string list" where
  "required_list doc = (case s_required doc of None \<Rightarrow> [] | Some r \<Rightarrow> r)"

fun strict_objects :: "json_schema \<Rightarrow> bool" where
  "strict_objects (JsonSchema t ps r ap d it mn mx e) =
     ((if t = ''object'' then ap = Some False else True)
      \<and> (case ps of None \<Rightarrow> True | Some fs \<Rightarrow> list_all (\<lambda>(key, s). strict_objects s) fs)
      \<and> (case it of None \<Rightarrow> True | Some s \<Rightarrow> strict_objects s))"

subsection \<open>Messages, tools, requests\<close>

datatype role = System | User | Assistant | Tool

text \<open>A tool call of an assistant message: \<open>id\<close>, \<open>function.name\<close>, \<open>function.arguments\<close>.\<close>

record tool_call =
  call_id :: string
  fn_name :: string
  fn_arguments :: string

text \<open>
  The interface \<open>Message\<close>, and \<open>tool_calls\<close>, which the endpoint's assistant messages
  carry and line 170 reads.
\<close>

record message =
  role :: role
  content :: string
  tool_call_id :: "string option"
  name :: "string option"
  tool_calls :: "tool_call list option"

text \<open>
  What the module can throw: \<open>Error\<close> is the \<open>new Error(...)\<close> of lines 159 and 253,
  \<open>SyntaxError\<close> is what \<open>JSON.parse\<close> throws (with the text it rejected),
  \<open>TypeError\<close> what JavaScript throws on a call or a property read that is not
  possible, \<open>ZodError\<close> what \<open>schema.parse\<close> throws. A tool's executor may throw any
  of them.
\<close>

datatype error =
    Error string
  | SyntaxError string
  | TypeError string
  | ZodError "zod_issue list"

text \<open>What \<open>createTool\<close> returns: an entry of the caller's \<open>tools\<close> object.\<close>

record tool =
  description :: string
  inputSchema :: zod
  execute :: "jsval \<Rightarrow> error + jsval"

text \<open>The interface \<open>Tool\<close>, an entry of the manifest (its \<open>type\<close> is always "function").\<close>

record manifest_tool =
  entry_name :: string
  entry_description :: string
  entry_parameters :: json_schema

text \<open>The body of the POST request, before \<open>JSON.stringify\<close>.\<close>

record request =
  req_model :: string
  req_messages :: "message list"
  max_tokens :: int
  req_temperature :: rat
  req_tools :: "manifest_tool list option"
  response_format :: "string option"

text \<open>
  What \<open>fetch\<close> gives: a rejection, a response that is not \<open>ok\<close> with its body text,
  or an \<open>ok\<close> response with the messages of its \<open>choices\<close>.
\<close>

datatype http_response =
    FetchRejected error
  | NotOk string
  | HttpOk "message list"

record env =
  JSON_parse :: "string \<Rightarrow> jsval option"
  JSON_stringify :: "jsval \<Rightarrow> string"
  JSON_pretty :: "json_schema \<Rightarrow> string"
  fetch :: "request \<Rightarrow> http_response"

record base_options =
  model :: string
  system :: "string option"
  prompt :: string
  maxTokens :: "int option"
  temperature :: "rat option"

record GenerateTextOptions = base_options +
  tools :: "(string \<times> tool) list option"
  stopWhen :: "(nat \<Rightarrow> bool) option"

record GenerateObjectOptions = base_options +
  schema :: zod

subsection \<open>generateText\<close>

text \<open>The three variables the loop of lines 136 to 201 updates.\<close>

record loop_state =
  messages :: "message list"
  stepCount :: nat
  shouldStop :: bool

definition plain_message :: "role \<Rightarrow> string \<Rightarrow> message" where
  "plain_message r c =
     \<lparr>role = r, content = c, tool_call_id = None, name = None, tool_calls = None\<rparr>"

text \<open>Lines 116 to 118: \<open>if (system)\<close> is false for an absent and for an empty string.\<close>

definition system_messages :: "string option \<Rightarrow> message list" where
  "system_messages sys =
     (case sys of
        None \<Rightarrow> []
      | Some s \<Rightarrow> if s = [] then [] else [plain_message System s])"

text \<open>Lines 121 to 134.\<close>

definition build_toolsArray :: "(string \<times> tool) list option \<Rightarrow> manifest_tool list" where
  "build_toolsArray ts =
     (case ts of
        None \<Rightarrow> []
      | Some entries \<Rightarrow>
          map (\<lambda>(n, toolDef).
                 \<lparr>entry_name = n,
                  entry_description = description toolDef,
                  entry_parameters = zodToJsonSchema (inputSchema toolDef)\<rparr>) entries)"

text \<open>
  Line 175, \<open>tools?.[toolName]\<close>. Without a tool set the result is \<open>undefined\<close>. With
  one, the property read finds the caller's entry of that name, and otherwise follows
  the prototype chain: a plain object inherits the members of \<open>Object.prototype\<close>,
  listed here, and all of them are truthy.
\<close>

definition Object_prototype_names :: "string list" where
  "Object_prototype_names =
     [''constructor'', ''__defineGetter__'', ''__defineSetter__'', ''hasOwnProperty'',
      ''__lookupGetter__'', ''__lookupSetter__'', ''isPrototypeOf'',
      ''propertyIsEnumerable'', ''toString'', ''valueOf'', ''__proto__'',
      ''toLocaleString'']"

datatype 'a property = Absent | Own 'a | Inherited

definition get_tool :: "(string \<times> tool) list option \<Rightarrow> string \<Rightarrow> tool property" where
  "get_tool ts toolName =
     (case ts of
        None \<Rightarrow> Absent
      | Some entries \<Rightarrow>
          (case map_of entries toolName of
             Some t \<Rightarrow> Own t
           | None \<Rightarrow> if toolName \<in> set Object_prototype_names then Inherited else Absent))"

text \<open>
  Lines 172 to 186, the \<open>for\<close> loop over the tool calls of one reply. An inherited
  member has no \<open>execute\<close>, so line 178 calls \<open>undefined\<close>.
\<close>

fun run_tool_calls ::
  "env \<Rightarrow> (string \<times> tool) list option \<Rightarrow> tool_call list \<Rightarrow> message list \<Rightarrow> error + message list"
where
  "run_tool_calls E ts [] msgs = Inr msgs"
| "run_tool_calls E ts (toolCall # rest) msgs =
     (case JSON_parse E (fn_arguments toolCall) of
        None \<Rightarrow> Inl (SyntaxError (fn_arguments toolCall))
      | Some toolArgs \<Rightarrow>
          (case get_tool ts (fn_name toolCall) of
             Absent \<Rightarrow> run_tool_calls E ts rest msgs
           | Inherited \<Rightarrow> Inl (TypeError ''tool.execute is not a function'')
           | Own t \<Rightarrow>
               (case execute t toolArgs of
                  Inl e \<Rightarrow> Inl e
                | Inr result \<Rightarrow>
                    run_tool_calls E ts rest
                      (msgs @ [\<lparr>role = Tool,
                                content = JSON_stringify E result,
                                tool_call_id = Some (call_id toolCall),
                                name = Some (fn_name toolCall),
                                tool_calls = None\<rparr>]))))"

text \<open>Lines 148 to 154, with the defaults of line 113.\<close>

definition text_request ::
  "'a GenerateTextOptions_scheme \<Rightarrow> manifest_tool list \<Rightarrow> message list \<Rightarrow> request" where
  "text_request opts toolsArray msgs =
     \<lparr>req_model = model opts,
      req_messages = msgs,
      max_tokens = (case maxTokens opts of None \<Rightarrow> 4000 | Some n \<Rightarrow> n),
      req_temperature = (case temperature opts of None \<Rightarrow> 7 / 10 | Some t \<Rightarrow> t),
      req_tools = (if length toolsArray > 0 then Some toolsArray else None),
      response_format = None\<rparr>"

text \<open>Line 189, \<open>options.stopWhen && options.stopWhen(stepCount)\<close>, and lines 198 to 200.\<close>

definition stop_requested :: "(nat \<Rightarrow> bool) option \<Rightarrow> nat \<Rightarrow> bool" where
  "stop_requested sw n = (case sw of None \<Rightarrow> False | Some p \<Rightarrow> p n)"

definition safety_limit :: "nat \<Rightarrow> bool \<Rightarrow> bool" where
  "safety_limit n stop = (if n \<ge> 10 then True else stop)"

text \<open>One pass through the body of the \<open>while\<close> loop, lines 140 to 200.\<close>

definition step ::
  "env \<Rightarrow> 'a GenerateTextOptions_scheme \<Rightarrow> manifest_tool list \<Rightarrow> loop_state \<Rightarrow> error + loop_state"
where
  "step E opts toolsArray st =
     (case fetch E (text_request opts toolsArray (messages st)) of
        FetchRejected e \<Rightarrow> Inl e
      | NotOk body \<Rightarrow> Inl (Error (''OpenRouter API error: '' @ body))
      | HttpOk choices \<Rightarrow>
          (case choices of
             [] \<Rightarrow> Inl (TypeError ''Cannot read properties of undefined'')
           | assistantMessage # _ \<Rightarrow>
               (let msgs = messages st @ [assistantMessage];
                    n = stepCount st + 1
                in case tool_calls assistantMessage of
                     Some (c # cs) \<Rightarrow>
                       (case run_tool_calls E (tools opts) (c # cs) msgs of
                          Inl e \<Rightarrow> Inl e
                        | Inr msgs' \<Rightarrow>
                            Inr \<lparr>messages = msgs', stepCount = n,
                                 shouldStop =
                                   safety_limit n
                                     (if stop_requested (stopWhen opts) n then True
                                      else shouldStop st)\<rparr>)
                   | _ \<Rightarrow>
                       Inr \<lparr>messages = msgs, stepCount = n,
                            shouldStop = safety_limit n True\<rparr>)))"

text \<open>
  The \<open>while (!shouldStop)\<close> loop. The source gives it no bound; that it ends is the
  termination proof, by the measure \<open>remaining\<close>.
\<close>

definition remaining :: "loop_state \<Rightarrow> nat" where
  "remaining st = (if shouldStop st then 0 else 1 + (10 - stepCount st))"

function loop ::
  "env \<Rightarrow> 'a GenerateTextOptions_scheme \<Rightarrow> manifest_tool list \<Rightarrow> loop_state \<Rightarrow> error + loop_state"
where
  "loop E opts toolsArray st =
     (if shouldStop st then Inr st
      else case step E opts toolsArray st of
             Inl e \<Rightarrow> Inl e
           | Inr st' \<Rightarrow> loop E opts toolsArray st')"
  by pat_completeness auto
termination
proof (relation "measure (\<lambda>(E, opts, toolsArray, st). remaining st)")
  show "wf (measure (\<lambda>(E :: env, opts :: 'a GenerateTextOptions_scheme,
                        toolsArray :: manifest_tool list, st). remaining st))"
    by simp
next
  fix E :: env and opts :: "'a GenerateTextOptions_scheme" and toolsArray st st'
  assume "\<not> shouldStop st" and "step E opts toolsArray st = Inr st'"
  then show "((E, opts, toolsArray, st'), (E, opts, toolsArray, st))
             \<in> measure (\<lambda>(E, opts, toolsArray, st). remaining st)"
    by (auto simp: step_def safety_limit_def remaining_def Let_def
             split: http_response.splits list.splits option.splits sum.splits if_splits)
qed

text \<open>Lines 115 to 119 and 136 to 137: the state the loop starts from.\<close>

definition initial_state :: "'a GenerateTextOptions_scheme \<Rightarrow> loop_state" where
  "initial_state opts =
     \<lparr>messages = system_messages (system opts) @ [plain_message User (prompt opts)],
      stepCount = 0,
      shouldStop = False\<rparr>"

text \<open>Lines 204 to 205. Reading \<open>role\<close> of the last entry of an empty array would throw.\<close>

definition final_text :: "message list \<Rightarrow> error + string" where
  "final_text msgs =
     (case rev msgs of
        [] \<Rightarrow> Inl (TypeError ''Cannot read properties of undefined'')
      | lastMessage # _ \<Rightarrow>
          Inr (if role lastMessage = Assistant then content lastMessage else []))"

definition generateText :: "env \<Rightarrow> 'a GenerateTextOptions_scheme \<Rightarrow> error + string" where
  "generateText E opts =
     (case loop E opts (build_toolsArray (tools opts)) (initial_state opts) of
        Inl e \<Rightarrow> Inl e
      | Inr st \<Rightarrow> final_text (messages st))"

subsection \<open>generateObject, stepCountIs, createTool\<close>

text \<open>Lines 218 to 249: the one request of \<open>generateObject\<close>.\<close>

definition object_request :: "env \<Rightarrow> 'a GenerateObjectOptions_scheme \<Rightarrow> request" where
  "object_request E opts =
     \<lparr>req_model = model opts,
      req_messages =
        system_messages (system opts) @
        [plain_message User
           (prompt opts @ [CHR 0x0A, CHR 0x0A] @
            ''You must respond with valid JSON matching this schema:'' @ [CHR 0x0A] @
            JSON_pretty E (zodToJsonSchema (schema opts)))],
      max_tokens = (case maxTokens opts of None \<Rightarrow> 4000 | Some n \<Rightarrow> n),
      req_temperature = (case temperature opts of None \<Rightarrow> 7 / 10 | Some t \<Rightarrow> t),
      req_tools = None,
      response_format = Some ''json_object''\<rparr>"

text \<open>Lines 251 to 263.\<close>

definition generateObject :: "env \<Rightarrow> 'a GenerateObjectOptions_scheme \<Rightarrow> error + jsval" where
  "generateObject E opts =
     (case fetch E (object_request E opts) of
        FetchRejected e \<Rightarrow> Inl e
      | NotOk body \<Rightarrow> Inl (Error (''OpenRouter API error: '' @ body))
      | HttpOk choices \<Rightarrow>
          (case choices of
             [] \<Rightarrow> Inl (TypeError ''Cannot read properties of undefined'')
           | m # _ \<Rightarrow>
               (case JSON_parse E (content m) of
                  None \<Rightarrow> Inl (SyntaxError (content m))
                | Some parsed \<Rightarrow>
                    (case safeParse (schema opts) parsed of
                       Inl issues \<Rightarrow> Inl (ZodError issues)
                     | Inr validated \<Rightarrow> Inr validated))))"

definition stepCountIs :: "int \<Rightarrow> nat \<Rightarrow> bool" where
  "stepCountIs count = (\<lambda>currentCount. int currentCount \<ge> count)"

definition createTool :: "tool \<Rightarrow> tool" where
  "createTool config =
     \<lparr>description = description config,
      inputSchema = inputSchema config,
      execute = execute config\<rparr>"

subsection \<open>Observing a run\<close>

text \<open>
  \<open>turns\<close> lists the states in which the loop body is entered, one per HTTP request,
  in order; it follows the recursion of \<open>loop\<close>. \<open>round_trips\<close> counts the requests of
  a call of \<open>generateText\<close>.
\<close>

function turns ::
  "env \<Rightarrow> 'a GenerateTextOptions_scheme \<Rightarrow> manifest_tool list \<Rightarrow> loop_state \<Rightarrow> loop_state list"
where
  "turns E opts toolsArray st =
     (if shouldStop st then []
      else st # (case step E opts toolsArray st of
                   Inl e \<Rightarrow> []
                 | Inr st' \<Rightarrow> turns E opts toolsArray st'))"
  by pat_completeness auto
termination
proof (relation "measure (\<lambda>(E, opts, toolsArray, st). remaining st)")
  show "wf (measure (\<lambda>(E :: env, opts :: 'a GenerateTextOptions_scheme,
                        toolsArray :: manifest_tool list, st). remaining st))"
    by simp
next
  fix E :: env and opts :: "'a GenerateTextOptions_scheme" and toolsArray st st'
  assume "\<not> shouldStop st" and "step E opts toolsArray st = Inr st'"
  then show "((E, opts, toolsArray, st'), (E, opts, toolsArray, st))
             \<in> measure (\<lambda>(E, opts, toolsArray, st). remaining st)"
    by (auto simp: step_def safety_limit_def remaining_def Let_def
             split: http_response.splits list.splits option.splits sum.splits if_splits)
qed

definition run_turns :: "env \<Rightarrow> 'a GenerateTextOptions_scheme \<Rightarrow> loop_state list" where
  "run_turns E opts = turns E opts (build_toolsArray (tools opts)) (initial_state opts)"

definition round_trips :: "env \<Rightarrow> 'a GenerateTextOptions_scheme \<Rightarrow> nat" where
  "round_trips E opts = length (run_turns E opts)"

text \<open>
  A tool turn: the endpoint answers the transcript of \<open>st\<close> with a message that has
  tool calls, and all of them are processed without a throw.
\<close>

definition tool_turn ::
  "env \<Rightarrow> 'a GenerateTextOptions_scheme \<Rightarrow> manifest_tool list \<Rightarrow> loop_state \<Rightarrow> bool" where
  "tool_turn E opts toolsArray st =
     (case fetch E (text_request opts toolsArray (messages st)) of
        HttpOk (m # _) \<Rightarrow>
          (case tool_calls m of
             Some (c # cs) \<Rightarrow>
               (case run_tool_calls E (tools opts) (c # cs) (messages st @ [m]) of
                  Inr _ \<Rightarrow> True
                | Inl _ \<Rightarrow> False)
           | _ \<Rightarrow> False)
      | _ \<Rightarrow> False)"

text \<open>The reply the endpoint gives in state \<open>st\<close>, when it gives one.\<close>

definition reply_at ::
  "env \<Rightarrow> 'a GenerateTextOptions_scheme \<Rightarrow> manifest_tool list \<Rightarrow> loop_state \<Rightarrow> message option" where
  "reply_at E opts toolsArray st =
     (case fetch E (text_request opts toolsArray (messages st)) of
        HttpOk (m # _) \<Rightarrow> Some m
      | _ \<Rightarrow> None)"

text \<open>The calls of a message, and whether one of them names a tool the caller registered.\<close>

definition calls_of :: "message \<Rightarrow> tool_call list" where
  "calls_of m = (case tool_calls m of None \<Rightarrow> [] | Some cs \<Rightarrow> cs)"

definition registered :: "(string \<times> tool) list option \<Rightarrow> string \<Rightarrow> bool" where
  "registered ts n = (case get_tool ts n of Own t \<Rightarrow> True | _ \<Rightarrow> False)"

definition calls_registered_tool :: "(string \<times> tool) list option \<Rightarrow> message \<Rightarrow> bool" where
  "calls_registered_tool ts m = list_ex (\<lambda>c. registered ts (fn_name c)) (calls_of m)"

text \<open>
  A tool-executing turn is a tool turn whose reply calls a registered tool.
  \<open>tool_results\<close> are the messages a turn appends after the assistant's reply, and a
  turn has executed a tool when there is one and all of them are tool messages.
\<close>

definition executing_turn ::
  "env \<Rightarrow> 'a GenerateTextOptions_scheme \<Rightarrow> manifest_tool list \<Rightarrow> loop_state \<Rightarrow> bool" where
  "executing_turn E opts toolsArray st =
     (tool_turn E opts toolsArray st
      \<and> (case reply_at E opts toolsArray st of
            Some m \<Rightarrow> calls_registered_tool (tools opts) m
          | None \<Rightarrow> False))"

definition tool_results ::
  "env \<Rightarrow> 'a GenerateTextOptions_scheme \<Rightarrow> manifest_tool list \<Rightarrow> loop_state \<Rightarrow> message list" where
  "tool_results E opts toolsArray st =
     (case step E opts toolsArray st of
        Inl e \<Rightarrow> []
      | Inr st' \<Rightarrow> drop (Suc (length (messages st))) (messages st'))"

definition executed_a_tool ::
  "env \<Rightarrow> 'a GenerateTextOptions_scheme \<Rightarrow> manifest_tool list \<Rightarrow> loop_state \<Rightarrow> bool" where
  "executed_a_tool E opts toolsArray st =
     (tool_results E opts toolsArray st \<noteq> []
      \<and> list_all (\<lambda>t. role t = Tool) (tool_results E opts toolsArray st))"

subsection \<open>A scripted environment for the examples\<close>

text \<open>
  Stand-ins for the built-ins on the texts and values the examples use:
  \<open>demo_parse\<close> agrees with \<open>JSON.parse\<close> on the four JSON texts it accepts and on
  the text \<open>{oops\<close>, which both reject; \<open>demo_stringify\<close> is only applied to
  \<open>null\<close>. The endpoints are scripted: one asks for the same tool call on every
  reply, one answers with a text, one fails.
\<close>

definition demo_parse :: "string \<Rightarrow> jsval option" where
  "demo_parse s =
     (if s = ''{}'' then Some (Obj [])
      else if s = ''{\"name\":\"X\"}'' then Some (Obj [(''name'', Str ''X'')])
      else if s = ''{\"name\":5}'' then Some (Obj [(''name'', Number 5)])
      else if s = ''{\"name\":\"X\",\"extra\":1}''
        then Some (Obj [(''name'', Str ''X''), (''extra'', Number 1)])
      else None)"

definition demo_stringify :: "jsval \<Rightarrow> string" where
  "demo_stringify v = ''null''"

definition demo_pretty :: "json_schema \<Rightarrow> string" where
  "demo_pretty doc = ''{}''"

definition demo_env :: "(request \<Rightarrow> http_response) \<Rightarrow> env" where
  "demo_env f =
     \<lparr>JSON_parse = demo_parse, JSON_stringify = demo_stringify,
      JSON_pretty = demo_pretty, fetch = f\<rparr>"

definition assistant_reply :: "string \<Rightarrow> tool_call list option \<Rightarrow> message" where
  "assistant_reply c calls =
     \<lparr>role = Assistant, content = c, tool_call_id = None, name = None, tool_calls = calls\<rparr>"

definition endpoint_calling :: "string \<Rightarrow> string \<Rightarrow> request \<Rightarrow> http_response" where
  "endpoint_calling n a req =
     HttpOk [assistant_reply ''''
               (Some [\<lparr>call_id = ''call_1'', fn_name = n, fn_arguments = a\<rparr>])]"

definition endpoint_saying :: "string \<Rightarrow> request \<Rightarrow> http_response" where
  "endpoint_saying c req = HttpOk [assistant_reply c None]"

definition endpoint_failing :: "string \<Rightarrow> request \<Rightarrow> http_response" where
  "endpoint_failing body req = NotOk body"

definition demo_tool :: tool where
  "demo_tool =
     createTool \<lparr>description = ''Looks a thing up'', inputSchema = z_object [],
                 execute = (\<lambda>args. Inr Null)\<rparr>"

definition demo_options :: "(nat \<Rightarrow> bool) option \<Rightarrow> GenerateTextOptions" where
  "demo_options sw =
     \<lparr>model = ''demo-model'', system = None, prompt = ''hello'', maxTokens = None,
      temperature = None, tools = Some [(''lookup'', demo_tool)], stopWhen = sw\<rparr>"

text \<open>
  A tool whose executor rejects, a tool set that registers it as \<open>lookup\<close>, and an
  endpoint whose every reply has two calls.
\<close>

definition rejecting_tool :: tool where
  "rejecting_tool =
     createTool \<lparr>description = ''Always fails'', inputSchema = z_object [],
                 execute = (\<lambda>args. Inl (Error ''tool failed''))\<rparr>"

definition rejecting_options :: "(nat \<Rightarrow> bool) option \<Rightarrow> GenerateTextOptions" where
  "rejecting_options sw =
     \<lparr>model = ''demo-model'', system = None, prompt = ''hello'', maxTokens = None,
      temperature = None, tools = Some [(''lookup'', rejecting_tool)], stopWhen = sw\<rparr>"

definition endpoint_calling_two ::
  "string \<Rightarrow> string \<Rightarrow> string \<Rightarrow> string \<Rightarrow> request \<Rightarrow> http_response" where
  "endpoint_calling_two n1 a1 n2 a2 req =
     HttpOk [assistant_reply []
               (Some [\<lparr>call_id = ''call_1'', fn_name = n1, fn_arguments = a1\<rparr>,
                      \<lparr>call_id = ''call_2'', fn_name = n2, fn_arguments = a2\<rparr>])]"

definition name_schema :: zod where
  "name_schema = z_object [(''name'', z_string)]"

definition demo_object_options :: GenerateObjectOptions where
  "demo_object_options =
     \<lparr>model = ''demo-model'', system = None, prompt = ''hello'', maxTokens = None,
      temperature = None, schema = name_schema\<rparr>"

definition zod_any :: zod where
  "zod_any = ZodOther Inr"

text \<open>
  \<open>z.coerce.string()\<close> and \<open>z.coerce.boolean()\<close>. The conversion the first carries
  stands for the runtime's on numbers, arrays and objects; the examples apply it to none.
\<close>

definition z_coerce_string :: zod where
  "z_coerce_string = ZodString (Some (\<lambda>v. ''[object Object]'')) Inr None"

definition z_coerce_boolean :: zod where
  "z_coerce_boolean = ZodBoolean True None"

definition demo_shape :: "(string \<times> zod) list" where
  "demo_shape =
     [(''title'', z_string), (''count'', ZodOptional z_number),
      (''extra'', zod_any), (''label'', z_coerce_string), (''flag'', z_coerce_boolean)]"

section \<open>The schema compiler\<close>

lemma isOptional_wrapped: "wrapped_in_Optional node \<Longrightarrow> isOptional node"
  by (cases node) (simp_all add: isOptional_def)

lemma isOptional_never: "never_optional node \<Longrightarrow> \<not> isOptional node"
  by (induction node rule: never_optional.induct)
     (simp_all add: isOptional_def coerce_Number_def split: option.splits)

lemma isOptional_coerce_boolean: "isOptional (ZodBoolean True d)"
  by (simp add: isOptional_def coerce_Boolean_def)

lemma isOptional_coerce_string:
  "isOptional (ZodString (Some f) checks d) =
     (case checks ''undefined'' of Inl _ \<Rightarrow> False | Inr _ \<Rightarrow> True)"
  by (simp add: isOptional_def coerce_String_def split: sum.splits)

lemma isOptional_other:
  "isOptional (ZodOther p) = (case p Undefined of Inl _ \<Rightarrow> False | Inr _ \<Rightarrow> True)"
  by (simp add: isOptional_def)

lemma required_list_object:
  "required_list (zodToJsonSchema (ZodObject shape uk ca)) =
     map fst (filter (\<lambda>(key, v). \<not> isOptional v) shape)"
  by (simp add: required_list_def Let_def)

lemma required_never_empty_list:
  "s_required (zodToJsonSchema (ZodObject shape uk ca)) \<noteq> Some []"
  by (simp add: Let_def)

lemma required_absent:
  "required_list (zodToJsonSchema (ZodObject shape uk ca)) = [] \<Longrightarrow>
   s_required (zodToJsonSchema (ZodObject shape uk ca)) = None"
  using required_never_empty_list[of shape uk ca]
  by (cases "s_required (zodToJsonSchema (ZodObject shape uk ca))")
     (auto simp: required_list_def)

lemma required_membership:
  assumes "distinct (map fst shape)" and "(key, node) \<in> set shape"
  shows "(key \<in> set (required_list (zodToJsonSchema (ZodObject shape uk ca))))
         = (\<not> isOptional node)"
proof -
  have "(key \<in> fst ` {x \<in> set shape. \<not> isOptional (snd x)}) = (\<not> isOptional node)"
  proof
    assume "key \<in> fst ` {x \<in> set shape. \<not> isOptional (snd x)}"
    then obtain n where n: "(key, n) \<in> set shape" "\<not> isOptional n" by auto
    from assms n(1) have "n = node"
      by (meson eq_key_imp_eq_value)
    with n show "\<not> isOptional node" by simp
  next
    assume "\<not> isOptional node"
    with assms(2) show "key \<in> fst ` {x \<in> set shape. \<not> isOptional (snd x)}"
      by force
  qed
  then show ?thesis
    unfolding required_list_object by (simp add: case_prod_unfold)
qed

text \<open>
  Claim C2, as the code has it. For an Object node with distinct field names, a field
  is in the compiled \<open>required\<close> list exactly when its node rejects \<open>undefined\<close>
  (\<open>isOptional()\<close> is false). Kind by kind: a field wrapped in Optional is never in the
  list; a field whose node is an Object, a Number, an Array, an Enum, or a String or
  Boolean that does not coerce, always is; a coercing Boolean never is; a coercing
  String is exactly when its checks reject the text \<open>undefined\<close>; a field of a kind
  the compiler does not recognise is exactly when that kind rejects \<open>undefined\<close>. The
  document never has an empty \<open>required\<close> list: when no field is required the key is
  absent.
\<close>

theorem required_iff_rejects_undefined:
  assumes "distinct (map fst shape)" and "(key, node) \<in> set shape"
  shows "(key \<in> set (required_list (zodToJsonSchema (ZodObject shape uk ca))))
           = (\<not> isOptional node)
    \<and> (wrapped_in_Optional node \<longrightarrow>
          key \<notin> set (required_list (zodToJsonSchema (ZodObject shape uk ca))))
    \<and> (never_optional node \<longrightarrow>
          key \<in> set (required_list (zodToJsonSchema (ZodObject shape uk ca))))
    \<and> (node = ZodBoolean True d \<longrightarrow>
          key \<notin> set (required_list (zodToJsonSchema (ZodObject shape uk ca))))
    \<and> (node = ZodString (Some f) checks d' \<longrightarrow>
          (key \<in> set (required_list (zodToJsonSchema (ZodObject shape uk ca))))
            = (case checks ''undefined'' of Inl _ \<Rightarrow> True | Inr _ \<Rightarrow> False))
    \<and> (node = ZodOther p \<longrightarrow>
          (key \<in> set (required_list (zodToJsonSchema (ZodObject shape uk ca))))
            = (case p Undefined of Inl _ \<Rightarrow> True | Inr _ \<Rightarrow> False))
    \<and> s_required (zodToJsonSchema (ZodObject shape uk ca)) \<noteq> Some []
    \<and> (required_list (zodToJsonSchema (ZodObject shape uk ca)) = [] \<longrightarrow>
          s_required (zodToJsonSchema (ZodObject shape uk ca)) = None)"
proof -
  let ?in = "key \<in> set (required_list (zodToJsonSchema (ZodObject shape uk ca)))"
  have m: "?in = (\<not> isOptional node)"
    by (rule required_membership[OF assms])
  have w: "wrapped_in_Optional node \<Longrightarrow> \<not> ?in"
    using m isOptional_wrapped by simp
  have r: "never_optional node \<Longrightarrow> ?in"
    using m isOptional_never by simp
  have b: "node = ZodBoolean True d \<Longrightarrow> \<not> ?in"
    using m isOptional_coerce_boolean by simp
  have s: "node = ZodString (Some f) checks d' \<Longrightarrow>
           ?in = (case checks ''undefined'' of Inl _ \<Rightarrow> True | Inr _ \<Rightarrow> False)"
    using m by (simp add: isOptional_coerce_string split: sum.splits)
  have o: "node = ZodOther p \<Longrightarrow>
           ?in = (case p Undefined of Inl _ \<Rightarrow> True | Inr _ \<Rightarrow> False)"
    using m by (simp add: isOptional_other split: sum.splits)
  from m w r b s o required_never_empty_list[of shape uk ca] required_absent[of shape uk ca]
  show ?thesis by blast
qed

text \<open>
  The theorem at the shape \<open>{title: z.string(), count: z.number().optional(), extra:
  z.any(), label: z.coerce.string(), flag: z.coerce.boolean()}\<close>: \<open>title\<close> is
  required, and none of the other four is.
\<close>

theorem required_iff_rejects_undefined_witness:
  "distinct (map fst demo_shape)
   \<and> (''title'', z_string) \<in> set demo_shape
   \<and> ''title'' \<in> set (required_list (zodToJsonSchema (z_object demo_shape)))
   \<and> (''count'', ZodOptional z_number) \<in> set demo_shape
   \<and> ''count'' \<notin> set (required_list (zodToJsonSchema (z_object demo_shape)))
   \<and> (''label'', z_coerce_string) \<in> set demo_shape
   \<and> ''label'' \<notin> set (required_list (zodToJsonSchema (z_object demo_shape)))
   \<and> (''flag'', z_coerce_boolean) \<in> set demo_shape
   \<and> ''flag'' \<notin> set (required_list (zodToJsonSchema (z_object demo_shape)))
   \<and> required_list (zodToJsonSchema (z_object demo_shape)) = [''title'']"
proof -
  have d: "distinct (map fst demo_shape)"
    by (simp add: demo_shape_def)
  have t: "(''title'', z_string) \<in> set demo_shape"
    and c: "(''count'', ZodOptional z_number) \<in> set demo_shape"
    and l: "(''label'', z_coerce_string) \<in> set demo_shape"
    and f: "(''flag'', z_coerce_boolean) \<in> set demo_shape"
    by (simp_all add: demo_shape_def)
  have all: "required_list (zodToJsonSchema (z_object demo_shape)) = [''title'']"
    by (simp add: required_list_object z_object_def demo_shape_def isOptional_def z_string_def
        z_number_def zod_any_def z_coerce_string_def z_coerce_boolean_def coerce_String_def
        coerce_Boolean_def del: zodToJsonSchema.simps)
  from required_iff_rejects_undefined[OF d t, of Strip None]
    required_iff_rejects_undefined[OF d c, of Strip None]
    required_iff_rejects_undefined[OF d l, of Strip None]
    required_iff_rejects_undefined[OF d f, of Strip None]
    d t c l f all
  show ?thesis
    by (simp add: z_object_def isOptional_def z_string_def z_number_def z_coerce_string_def
        z_coerce_boolean_def coerce_String_def coerce_Boolean_def
        del: zodToJsonSchema.simps)
qed

text \<open>
  Claim C2 as stated fails for a field of a kind the compiler does not recognise that
  accepts \<open>undefined\<close>: \<open>z.any()\<close> is not wrapped in Optional, and the field is left
  out of \<open>required\<close> (here the only field, so the key is absent).
\<close>

theorem unwrapped_field_not_required:
  "\<not> wrapped_in_Optional zod_any
   \<and> ''extra'' \<notin> set (required_list (zodToJsonSchema (z_object [(''extra'', zod_any)])))
   \<and> s_required (zodToJsonSchema (z_object [(''extra'', zod_any)])) = None"
  by (simp add: zod_any_def z_object_def isOptional_def required_list_def)

text \<open>
  Claim C7. In the compiled document of every schema, every document of type
  \<open>object\<close>, at every depth (under \<open>properties\<close> and under \<open>items\<close>), has
  \<open>additionalProperties: false\<close>; and an Object node compiles to such a document.
\<close>

theorem additionalProperties_false_everywhere:
  "strict_objects (zodToJsonSchema s)
   \<and> s_type (zodToJsonSchema (ZodObject shape uk ca)) = ''object''
   \<and> s_additionalProperties (zodToJsonSchema (ZodObject shape uk ca)) = Some False"
proof -
  have "strict_objects (zodToJsonSchema s)"
    by (induction s rule: zodToJsonSchema.induct) (auto simp: Let_def list_all_iff)
  then show ?thesis by (simp add: Let_def)
qed

section \<open>The loop of generateText\<close>

declare loop.simps [simp del] turns.simps [simp del]

lemma loop_stopped: "shouldStop st \<Longrightarrow> loop E opts ta st = Inr st"
  by (simp add: loop.simps)

lemma loop_step:
  "\<not> shouldStop st \<Longrightarrow> step E opts ta st = Inr st' \<Longrightarrow> loop E opts ta st = loop E opts ta st'"
  by (subst loop.simps) simp

lemma loop_throw:
  "\<not> shouldStop st \<Longrightarrow> step E opts ta st = Inl e \<Longrightarrow> loop E opts ta st = Inl e"
  by (subst loop.simps) simp

lemma turns_stopped: "shouldStop st \<Longrightarrow> turns E opts ta st = []"
  by (simp add: turns.simps)

lemma turns_step:
  "\<not> shouldStop st \<Longrightarrow> step E opts ta st = Inr st' \<Longrightarrow>
   turns E opts ta st = st # turns E opts ta st'"
  by (subst turns.simps) simp

lemma turns_throw:
  "\<not> shouldStop st \<Longrightarrow> step E opts ta st = Inl e \<Longrightarrow> turns E opts ta st = [st]"
  by (subst turns.simps) simp

lemma step_count:
  "step E opts ta st = Inr st' \<Longrightarrow>
   stepCount st' = Suc (stepCount st) \<and> (10 \<le> stepCount st' \<longrightarrow> shouldStop st')"
  by (auto simp: step_def safety_limit_def Let_def
           split: http_response.splits list.splits option.splits sum.splits if_splits)

text \<open>Every pass either throws or counts one step, and the tenth step stops the loop.\<close>

lemma turns_bound:
  "length (turns E opts ta st) \<le> (if shouldStop st then 0 else max 1 (10 - stepCount st))"
proof (induction E opts ta st rule: turns.induct)
  case (1 E opts ta st)
  show ?case
  proof (cases "shouldStop st")
    case True
    then show ?thesis by (simp add: turns_stopped)
  next
    case False
    show ?thesis
    proof (cases "step E opts ta st")
      case (Inl e)
      with False show ?thesis by (simp add: turns_throw)
    next
      case (Inr st')
      from step_count[OF Inr] have c: "stepCount st' = Suc (stepCount st)"
        and s: "10 \<le> stepCount st' \<longrightarrow> shouldStop st'" by simp_all
      from "1.IH"[OF False Inr]
      have "length (turns E opts ta st')
            \<le> (if shouldStop st' then 0 else max 1 (10 - stepCount st'))" .
      with c s False Inr show ?thesis
        by (auto simp: turns_step split: if_splits)
    qed
  qed
qed

lemma round_trips_le_10: "round_trips E opts \<le> 10"
  using turns_bound[of E opts "build_toolsArray (tools opts)" "initial_state opts"]
  by (simp add: round_trips_def run_turns_def initial_state_def)

lemma step_tool_turn:
  assumes "tool_turn E opts ta st"
  shows "\<exists>msgs'. step E opts ta st =
           Inr \<lparr>messages = msgs', stepCount = Suc (stepCount st),
                shouldStop = safety_limit (Suc (stepCount st))
                  (if stop_requested (stopWhen opts) (Suc (stepCount st)) then True
                   else shouldStop st)\<rparr>"
  using assms
  by (auto simp: tool_turn_def step_def Let_def simp del: run_tool_calls.simps
           split: http_response.splits list.splits option.splits sum.splits)

section \<open>Runs of the loop\<close>

lemma run_tool_calls_append:
  "run_tool_calls E ts (xs @ ys) msgs =
     (case run_tool_calls E ts xs msgs of
        Inl e \<Rightarrow> Inl e
      | Inr msgs' \<Rightarrow> run_tool_calls E ts ys msgs')"
  by (induction xs arbitrary: msgs)
     (auto split: option.splits property.splits sum.splits)

text \<open>
  The calls of a reply only append tool messages, and at least one when one of the
  calls names a registered tool.
\<close>

lemma run_tool_calls_messages:
  "run_tool_calls E ts cs msgs = Inr msgs' \<Longrightarrow>
   \<exists>tms. msgs' = msgs @ tms \<and> list_all (\<lambda>t. role t = Tool) tms
         \<and> (list_ex (\<lambda>c. registered ts (fn_name c)) cs \<longrightarrow> tms \<noteq> [])"
proof (induction cs arbitrary: msgs)
  case Nil
  then show ?case by simp
next
  case (Cons c cs)
  from Cons.prems obtain a where a: "JSON_parse E (fn_arguments c) = Some a"
    by (auto split: option.splits)
  show ?case
  proof (cases "get_tool ts (fn_name c)")
    case Absent
    with Cons.prems a have "run_tool_calls E ts cs msgs = Inr msgs'" by simp
    from Cons.IH[OF this] Absent show ?thesis by (auto simp: registered_def)
  next
    case (Own t)
    with Cons.prems a obtain res where res: "execute t a = Inr res"
      and run: "run_tool_calls E ts cs
                  (msgs @ [\<lparr>role = Tool, content = JSON_stringify E res,
                            tool_call_id = Some (call_id c), name = Some (fn_name c),
                            tool_calls = None\<rparr>]) = Inr msgs'"
      by (auto split: sum.splits)
    from Cons.IH[OF run] show ?thesis by auto
  next
    case Inherited
    with Cons.prems a show ?thesis by simp
  qed
qed

lemma step_messages:
  assumes "step E opts ta st = Inr st'"
  shows "\<exists>m tms. reply_at E opts ta st = Some m
           \<and> messages st' = messages st @ m # tms
           \<and> list_all (\<lambda>t. role t = Tool) tms
           \<and> (calls_registered_tool (tools opts) m \<longrightarrow> tms \<noteq> [])"
proof -
  from assms obtain m rest where f: "fetch E (text_request opts ta (messages st)) = HttpOk (m # rest)"
    by (auto simp: step_def split: http_response.splits list.splits)
  then have r: "reply_at E opts ta st = Some m" by (simp add: reply_at_def)
  show ?thesis
  proof (cases "calls_of m")
    case Nil
    with assms f have "messages st' = messages st @ [m]"
      by (auto simp: step_def calls_of_def Let_def split: option.splits list.splits)
    with r Nil show ?thesis by (simp add: calls_registered_tool_def)
  next
    case (Cons c cs)
    then have tc: "tool_calls m = Some (c # cs)"
      by (simp add: calls_of_def split: option.splits)
    with assms f have "run_tool_calls E (tools opts) (c # cs) (messages st @ [m]) = Inr (messages st')"
      by (auto simp: step_def Let_def simp del: run_tool_calls.simps split: sum.splits)
    from run_tool_calls_messages[OF this] r Cons show ?thesis
      by (auto simp: calls_registered_tool_def)
  qed
qed

lemma step_stop_after_calls:
  assumes "step E opts ta st = Inr st'" and "\<not> shouldStop st"
    and "reply_at E opts ta st = Some m" and "calls_of m \<noteq> []"
  shows "shouldStop st' = (stop_requested (stopWhen opts) (stepCount st') \<or> 10 \<le> stepCount st')"
proof -
  from assms(3) obtain rest where f: "fetch E (text_request opts ta (messages st)) = HttpOk (m # rest)"
    by (auto simp: reply_at_def split: http_response.splits list.splits)
  from assms(4) obtain c cs where tc: "tool_calls m = Some (c # cs)"
    by (cases "tool_calls m"; cases "calls_of m") (auto simp: calls_of_def)
  from assms(1,2) f tc show ?thesis
    by (auto simp: step_def Let_def safety_limit_def simp del: run_tool_calls.simps
             split: sum.splits if_splits)
qed

lemma loop_Inr_stopped: "loop E opts ta st = Inr stf \<Longrightarrow> shouldStop stf"
proof (induction E opts ta st rule: loop.induct)
  case (1 E opts ta st)
  show ?case
  proof (cases "shouldStop st")
    case True
    with "1.prems" show ?thesis by (simp add: loop_stopped)
  next
    case False
    show ?thesis
    proof (cases "step E opts ta st")
      case (Inl e)
      with False "1.prems" show ?thesis by (simp add: loop_throw)
    next
      case (Inr st')
      with False "1.prems" have "loop E opts ta st' = Inr stf" by (simp add: loop_step)
      from "1.IH"[OF False Inr this] show ?thesis .
    qed
  qed
qed

lemma loop_messages:
  "loop E opts ta st = Inr stf \<Longrightarrow> \<exists>ext. messages stf = messages st @ ext"
proof (induction E opts ta st rule: loop.induct)
  case (1 E opts ta st)
  show ?case
  proof (cases "shouldStop st")
    case True
    with "1.prems" show ?thesis by (simp add: loop_stopped)
  next
    case False
    show ?thesis
    proof (cases "step E opts ta st")
      case (Inl e)
      with False "1.prems" show ?thesis by (simp add: loop_throw)
    next
      case (Inr st')
      with False "1.prems" have "loop E opts ta st' = Inr stf" by (simp add: loop_step)
      from "1.IH"[OF False Inr this] step_messages[OF Inr] show ?thesis by auto
    qed
  qed
qed

text \<open>From any turn of a run, the rest of the run is the run from that turn.\<close>

lemma turns_member:
  "st \<in> set (turns E opts ta st0) \<Longrightarrow>
   loop E opts ta st0 = loop E opts ta st
   \<and> (\<exists>pre. turns E opts ta st0 = pre @ turns E opts ta st)
   \<and> \<not> shouldStop st \<and> stepCount st0 \<le> stepCount st
   \<and> (stepCount st0 < 10 \<longrightarrow> stepCount st < 10)"
proof (induction E opts ta st0 rule: turns.induct)
  case (1 E opts ta st0)
  show ?case
  proof (cases "shouldStop st0")
    case True
    with "1.prems" show ?thesis by (simp add: turns_stopped)
  next
    case False
    show ?thesis
    proof (cases "st = st0")
      case True
      with False show ?thesis by auto
    next
      case ne: False
      show ?thesis
      proof (cases "step E opts ta st0")
        case (Inl e)
        with False "1.prems" ne show ?thesis by (simp add: turns_throw)
      next
        case (Inr st')
        with False "1.prems" ne have mem: "st \<in> set (turns E opts ta st')"
          by (simp add: turns_step)
        then have ns': "\<not> shouldStop st'"
          using turns_stopped[of st' E opts ta] by auto
        from step_count[OF Inr] ns' have c: "stepCount st' = Suc (stepCount st0)"
          "stepCount st' < 10" by auto
        from "1.IH"[OF False Inr mem] c False Inr show ?thesis
          by (auto simp: loop_step turns_step)
      qed
    qed
  qed
qed

lemma turns_distinct: "distinct (turns E opts ta st0)"
proof (induction E opts ta st0 rule: turns.induct)
  case (1 E opts ta st0)
  show ?case
  proof (cases "shouldStop st0")
    case True
    then show ?thesis by (simp add: turns_stopped)
  next
    case False
    show ?thesis
    proof (cases "step E opts ta st0")
      case (Inl e)
      with False show ?thesis by (simp add: turns_throw)
    next
      case (Inr st')
      have "st0 \<notin> set (turns E opts ta st')"
      proof
        assume "st0 \<in> set (turns E opts ta st')"
        from turns_member[OF this] step_count[OF Inr] show False by simp
      qed
      with "1.IH"[OF False Inr] False Inr show ?thesis by (simp add: turns_step)
    qed
  qed
qed

text \<open>The last turn of a run is the one whose pass ends it.\<close>

lemma last_turn:
  "\<not> shouldStop st0 \<Longrightarrow>
   turns E opts ta st0 \<noteq> []
   \<and> (case step E opts ta (last (turns E opts ta st0)) of
        Inl e \<Rightarrow> loop E opts ta st0 = Inl e
      | Inr stf \<Rightarrow> loop E opts ta st0 = Inr stf)"
proof (induction E opts ta st0 rule: turns.induct)
  case (1 E opts ta st0)
  show ?case
  proof (cases "step E opts ta st0")
    case (Inl e)
    with "1.prems" show ?thesis by (simp add: turns_throw loop_throw)
  next
    case (Inr st')
    show ?thesis
    proof (cases "shouldStop st'")
      case True
      with Inr "1.prems" show ?thesis
        by (simp add: turns_step turns_stopped loop_step loop_stopped)
    next
      case False
      from "1.IH"[OF "1.prems" Inr False] Inr "1.prems" show ?thesis
        by (auto simp: turns_step loop_step split: sum.splits)
    qed
  qed
qed

lemma throwing_turn_is_last:
  assumes "st \<in> set (turns E opts ta st0)" and "step E opts ta st = Inl e"
  shows "loop E opts ta st0 = Inl e \<and> last (turns E opts ta st0) = st"
proof -
  from turns_member[OF assms(1)] obtain pre where
    l: "loop E opts ta st0 = loop E opts ta st"
    and t: "turns E opts ta st0 = pre @ turns E opts ta st"
    and ns: "\<not> shouldStop st" by auto
  from ns assms(2) have "loop E opts ta st = Inl e" "turns E opts ta st = [st]"
    by (simp_all add: loop_throw turns_throw)
  with l t show ?thesis by simp
qed

lemma run_turns_nonempty: "run_turns E opts \<noteq> []"
  using last_turn[of "initial_state opts" E opts "build_toolsArray (tools opts)"]
  by (simp add: run_turns_def initial_state_def)

section \<open>How many steps a run makes\<close>

lemma turns_head: "\<not> shouldStop st \<Longrightarrow> st \<in> set (turns E opts ta st)"
  by (subst turns.simps) simp

text \<open>
  When every turn of the run is a tool turn, the loop runs until the first count at
  which \<open>stopWhen\<close> holds, and until the tenth step when there is none before.
\<close>

lemma tool_turns_count:
  assumes all: "\<And>s. s \<in> set (turns E opts ta st) \<Longrightarrow> tool_turn E opts ta s"
    and "\<not> shouldStop st" and "stepCount st < k" and "k \<le> 10"
    and quiet: "\<And>n. stepCount st < n \<Longrightarrow> n < k \<Longrightarrow> \<not> stop_requested (stopWhen opts) n"
    and fin: "stop_requested (stopWhen opts) k \<or> k = 10"
  shows "length (turns E opts ta st) = k - stepCount st
         \<and> (\<exists>stf. loop E opts ta st = Inr stf \<and> stepCount stf = k)"
  using assms(1,2,3,5)
proof (induction "k - stepCount st" arbitrary: st)
  case 0
  then show ?case by simp
next
  case (Suc d)
  have "tool_turn E opts ta st"
    by (rule Suc.prems(1)[OF turns_head[OF Suc.prems(2)]])
  from step_tool_turn[OF this] Suc.prems(2)
  obtain msgs' where st': "step E opts ta st =
      Inr \<lparr>messages = msgs', stepCount = Suc (stepCount st),
           shouldStop = safety_limit (Suc (stepCount st))
             (stop_requested (stopWhen opts) (Suc (stepCount st)))\<rparr>"
    by auto
  define st' where "st' = \<lparr>messages = msgs', stepCount = Suc (stepCount st),
           shouldStop = safety_limit (Suc (stepCount st))
             (stop_requested (stopWhen opts) (Suc (stepCount st)))\<rparr>"
  have step: "step E opts ta st = Inr st'" using st' by (simp add: st'_def)
  have cnt: "stepCount st' = Suc (stepCount st)" by (simp add: st'_def)
  have stop: "shouldStop st' = safety_limit (Suc (stepCount st))
             (stop_requested (stopWhen opts) (Suc (stepCount st)))" by (simp add: st'_def)
  have ts: "turns E opts ta st = st # turns E opts ta st'"
    by (rule turns_step[OF Suc.prems(2) step])
  show ?case
  proof (cases "Suc (stepCount st) = k")
    case True
    with fin stop have "shouldStop st'" by (auto simp: safety_limit_def)
    with True cnt step Suc.prems(2) show ?thesis
      by (simp add: turns_step loop_step turns_stopped loop_stopped)
  next
    case False
    with Suc.prems(3) have lt: "Suc (stepCount st) < k" by simp
    with Suc.prems(4)[of "Suc (stepCount st)"] \<open>k \<le> 10\<close> stop
    have ns: "\<not> shouldStop st'" by (simp add: safety_limit_def)
    have d: "d = k - stepCount st'" using Suc.hyps(2) cnt by simp
    have all': "tool_turn E opts ta s" if "s \<in> set (turns E opts ta st')" for s
      using Suc.prems(1)[of s] that ts by simp
    have q': "\<not> stop_requested (stopWhen opts) n" if "stepCount st' < n" and "n < k" for n
      using Suc.prems(4)[of n] that cnt by simp
    have "length (turns E opts ta st') = k - stepCount st'
         \<and> (\<exists>stf. loop E opts ta st' = Inr stf \<and> stepCount stf = k)"
      using Suc.hyps(1)[OF d all' ns] lt cnt q' by simp
    with step Suc.prems(2) cnt lt show ?thesis
      by (simp add: turns_step loop_step)
  qed
qed

lemma run_count:
  assumes "list_all (tool_turn E opts (build_toolsArray (tools opts))) (run_turns E opts)"
    and "0 < k" and "k \<le> 10"
    and "\<And>n. 0 < n \<Longrightarrow> n < k \<Longrightarrow> \<not> stop_requested (stopWhen opts) n"
    and "stop_requested (stopWhen opts) k \<or> k = 10"
  shows "round_trips E opts = k
         \<and> (\<exists>stf. loop E opts (build_toolsArray (tools opts)) (initial_state opts) = Inr stf
                  \<and> stepCount stf = k)"
proof -
  have s: "\<not> shouldStop (initial_state opts)" "stepCount (initial_state opts) = 0"
    by (simp_all add: initial_state_def)
  have all: "tool_turn E opts (build_toolsArray (tools opts)) st"
    if "st \<in> set (turns E opts (build_toolsArray (tools opts)) (initial_state opts))" for st
    using assms(1) that by (simp add: list_all_iff run_turns_def)
  from tool_turns_count[of E opts "build_toolsArray (tools opts)" "initial_state opts" k,
      OF all s(1)] assms(2-) s(2)
  show ?thesis by (simp add: round_trips_def run_turns_def)
qed

text \<open>A tool-executing turn appends at least one message, and tool messages only.\<close>

lemma executing_turn_executes:
  assumes "executing_turn E opts ta st"
  shows "executed_a_tool E opts ta st"
proof -
  from assms have tt: "tool_turn E opts ta st" by (simp add: executing_turn_def)
  from step_tool_turn[OF tt] obtain st' where st: "step E opts ta st = Inr st'" by auto
  from step_messages[OF st] obtain m tms where
    r: "reply_at E opts ta st = Some m" and ms: "messages st' = messages st @ m # tms"
    and tl: "list_all (\<lambda>t. role t = Tool) tms"
    and ne: "calls_registered_tool (tools opts) m \<longrightarrow> tms \<noteq> []"
    by auto
  from assms r have "calls_registered_tool (tools opts) m"
    by (simp add: executing_turn_def)
  with ne have "tms \<noteq> []" by simp
  moreover from st ms have "tool_results E opts ta st = tms"
    by (simp add: tool_results_def)
  ultimately show ?thesis using tl by (simp add: executed_a_tool_def)
qed

subsection \<open>The scripted endpoint that asks for a tool on every reply\<close>

lemma demo_tool_turn:
  "tool_turn (demo_env (endpoint_calling ''lookup'' ''{}'')) (demo_options sw) ta st"
  by (simp add: tool_turn_def demo_env_def endpoint_calling_def assistant_reply_def
      demo_options_def demo_parse_def get_tool_def demo_tool_def createTool_def)

lemma demo_tool_turns:
  "list_all (tool_turn (demo_env (endpoint_calling ''lookup'' ''{}'')) (demo_options sw) ta) sts"
  by (simp add: list_all_iff demo_tool_turn)

lemma demo_executing_turns:
  "list_all (executing_turn (demo_env (endpoint_calling ''lookup'' ''{}'')) (demo_options sw) ta)
     sts"
  by (simp add: list_all_iff executing_turn_def demo_tool_turn)
     (simp add: reply_at_def calls_registered_tool_def calls_of_def registered_def
      get_tool_def demo_env_def endpoint_calling_def assistant_reply_def demo_options_def)

lemma rejecting_step:
  "step (demo_env (endpoint_calling ''lookup'' ''{}'')) (rejecting_options sw) ta st =
     Inl (Error ''tool failed'')"
  by (simp add: step_def demo_env_def endpoint_calling_def assistant_reply_def
      rejecting_options_def demo_parse_def get_tool_def rejecting_tool_def createTool_def)

lemma rejecting_first_step:
  "step (demo_env (endpoint_calling_two ''lookup'' ''{}'' ''nope'' ''{oops''))
     (rejecting_options sw) ta st = Inl (Error ''tool failed'')"
  by (simp add: step_def demo_env_def endpoint_calling_two_def assistant_reply_def
      rejecting_options_def demo_parse_def get_tool_def rejecting_tool_def createTool_def)

subsection \<open>Claims C1 and C6\<close>

text \<open>
  Claim C1, as the code has it. Every run of \<open>generateText\<close> makes at most 10 HTTP
  round trips, whatever \<open>stopWhen\<close> is. When every turn of the run is a tool turn (the
  reply has tool calls and they are processed without a throw), the loop makes exactly
  10 steps provided \<open>stopWhen\<close> is absent or false at every count from 1 to 9; and when
  \<open>stopWhen\<close> holds at a count \<open>k\<close> of at most 10 and at no count before, the loop
  makes exactly \<open>k\<close> steps.
\<close>

theorem at_most_ten_round_trips:
  "round_trips E opts \<le> 10
   \<and> (list_all (tool_turn E opts (build_toolsArray (tools opts))) (run_turns E opts)
        \<and> (\<forall>n. 0 < n \<and> n < 10 \<longrightarrow> \<not> stop_requested (stopWhen opts) n)
      \<longrightarrow> round_trips E opts = 10
          \<and> (\<exists>stf. loop E opts (build_toolsArray (tools opts)) (initial_state opts) = Inr stf
                   \<and> stepCount stf = 10))
   \<and> (list_all (tool_turn E opts (build_toolsArray (tools opts))) (run_turns E opts)
        \<and> 0 < k \<and> k \<le> 10
        \<and> (\<forall>n. 0 < n \<and> n < k \<longrightarrow> \<not> stop_requested (stopWhen opts) n)
        \<and> stop_requested (stopWhen opts) k
      \<longrightarrow> round_trips E opts = k
          \<and> (\<exists>stf. loop E opts (build_toolsArray (tools opts)) (initial_state opts) = Inr stf
                   \<and> stepCount stf = k))"
proof (intro conjI impI)
  show "round_trips E opts \<le> 10" by (rule round_trips_le_10)
next
  assume h: "list_all (tool_turn E opts (build_toolsArray (tools opts))) (run_turns E opts)
        \<and> (\<forall>n. 0 < n \<and> n < 10 \<longrightarrow> \<not> stop_requested (stopWhen opts) n)"
  then have "round_trips E opts = 10
     \<and> (\<exists>stf. loop E opts (build_toolsArray (tools opts)) (initial_state opts) = Inr stf
              \<and> stepCount stf = 10)"
    by (intro run_count) simp_all
  then show "round_trips E opts = 10"
    and "\<exists>stf. loop E opts (build_toolsArray (tools opts)) (initial_state opts) = Inr stf
               \<and> stepCount stf = 10"
    by simp_all
next
  assume h: "list_all (tool_turn E opts (build_toolsArray (tools opts))) (run_turns E opts)
        \<and> 0 < k \<and> k \<le> 10
        \<and> (\<forall>n. 0 < n \<and> n < k \<longrightarrow> \<not> stop_requested (stopWhen opts) n)
        \<and> stop_requested (stopWhen opts) k"
  then have "round_trips E opts = k
     \<and> (\<exists>stf. loop E opts (build_toolsArray (tools opts)) (initial_state opts) = Inr stf
              \<and> stepCount stf = k)"
    by (intro run_count) simp_all
  then show "round_trips E opts = k"
    and "\<exists>stf. loop E opts (build_toolsArray (tools opts)) (initial_state opts) = Inr stf
               \<and> stepCount stf = k"
    by simp_all
qed

text \<open>
  The theorem at the scripted endpoint: ten round trips without \<open>stopWhen\<close>, four with
  \<open>stopWhen = stepCountIs(4)\<close>.
\<close>

theorem at_most_ten_round_trips_witness:
  "round_trips (demo_env (endpoint_calling ''lookup'' ''{}'')) (demo_options None) = 10
   \<and> round_trips (demo_env (endpoint_calling ''lookup'' ''{}''))
       (demo_options (Some (stepCountIs 4))) = 4"
proof -
  have a: "round_trips (demo_env (endpoint_calling ''lookup'' ''{}'')) (demo_options None) = 10"
    using at_most_ten_round_trips
      [of "demo_env (endpoint_calling ''lookup'' ''{}'')" "demo_options None" 10]
    by (simp add: demo_tool_turns) (simp add: demo_options_def stop_requested_def)
  have b: "round_trips (demo_env (endpoint_calling ''lookup'' ''{}''))
       (demo_options (Some (stepCountIs 4))) = 4"
    using at_most_ten_round_trips
      [of "demo_env (endpoint_calling ''lookup'' ''{}'')" "demo_options (Some (stepCountIs 4))" 4]
    by (simp add: demo_tool_turns)
       (simp add: demo_options_def stop_requested_def stepCountIs_def)
  from a b show ?thesis by simp
qed

text \<open>
  Claim C1 as stated says exactly 10 steps regardless of \<open>stopWhen\<close>. With
  \<open>stopWhen = stepCountIs(3)\<close> the same endpoint is asked three times.
\<close>

theorem stopWhen_ends_before_ten:
  "round_trips (demo_env (endpoint_calling ''lookup'' ''{}''))
     (demo_options (Some (stepCountIs 3))) = 3"
proof -
  have "round_trips (demo_env (endpoint_calling ''lookup'' ''{}''))
          (demo_options (Some (stepCountIs 3))) = 3
        \<and> (\<exists>stf. loop (demo_env (endpoint_calling ''lookup'' ''{}''))
                    (demo_options (Some (stepCountIs 3)))
                    (build_toolsArray (tools (demo_options (Some (stepCountIs 3)))))
                    (initial_state (demo_options (Some (stepCountIs 3)))) = Inr stf
                 \<and> stepCount stf = 3)"
  proof (rule run_count)
    show "list_all (tool_turn (demo_env (endpoint_calling ''lookup'' ''{}''))
            (demo_options (Some (stepCountIs 3)))
            (build_toolsArray (tools (demo_options (Some (stepCountIs 3))))))
          (run_turns (demo_env (endpoint_calling ''lookup'' ''{}''))
            (demo_options (Some (stepCountIs 3))))"
      by (rule demo_tool_turns)
  qed (simp_all add: demo_options_def stop_requested_def stepCountIs_def)
  then show ?thesis by simp
qed

text \<open>
  Claim C6, as the code has it. \<open>stepCountIs(n)\<close> holds at \<open>currentCount\<close> exactly when
  \<open>currentCount >= n\<close>. With \<open>stopWhen = stepCountIs(2)\<close>, when every turn of the run
  is a tool-executing turn (the reply calls a registered tool and all its calls are
  processed without a throw), the loop makes exactly two round trips, each of them
  appends tool messages after the assistant's reply, and the loop returns with a step
  count of 2.
\<close>

theorem stepCountIs_two_turns:
  "stepCountIs count currentCount = (count \<le> int currentCount)
   \<and> (stopWhen opts = Some (stepCountIs 2)
        \<and> list_all (executing_turn E opts (build_toolsArray (tools opts))) (run_turns E opts)
      \<longrightarrow> round_trips E opts = 2
          \<and> list_all (executed_a_tool E opts (build_toolsArray (tools opts))) (run_turns E opts)
          \<and> (\<exists>stf. loop E opts (build_toolsArray (tools opts)) (initial_state opts) = Inr stf
                   \<and> stepCount stf = 2))"
proof (intro conjI impI)
  show "stepCountIs count currentCount = (count \<le> int currentCount)"
    by (simp add: stepCountIs_def)
next
  assume h: "stopWhen opts = Some (stepCountIs 2)
        \<and> list_all (executing_turn E opts (build_toolsArray (tools opts))) (run_turns E opts)"
  then have tt: "list_all (tool_turn E opts (build_toolsArray (tools opts))) (run_turns E opts)"
    by (simp add: list_all_iff executing_turn_def)
  from h have sw: "stopWhen opts = Some (stepCountIs 2)" by simp
  have "round_trips E opts = 2
     \<and> (\<exists>stf. loop E opts (build_toolsArray (tools opts)) (initial_state opts) = Inr stf
              \<and> stepCount stf = 2)"
    by (rule run_count[OF tt]) (simp_all add: sw stop_requested_def stepCountIs_def)
  then show "round_trips E opts = 2"
    and "\<exists>stf. loop E opts (build_toolsArray (tools opts)) (initial_state opts) = Inr stf
               \<and> stepCount stf = 2"
    by simp_all
  from h show "list_all (executed_a_tool E opts (build_toolsArray (tools opts)))
                 (run_turns E opts)"
    by (auto simp: list_all_iff intro: executing_turn_executes)
qed

text \<open>The theorem at the scripted endpoint with \<open>stopWhen = stepCountIs(2)\<close>.\<close>

theorem stepCountIs_two_turns_witness:
  "round_trips (demo_env (endpoint_calling ''lookup'' ''{}''))
     (demo_options (Some (stepCountIs 2))) = 2
   \<and> list_all (executed_a_tool (demo_env (endpoint_calling ''lookup'' ''{}''))
         (demo_options (Some (stepCountIs 2)))
         (build_toolsArray (tools (demo_options (Some (stepCountIs 2))))))
       (run_turns (demo_env (endpoint_calling ''lookup'' ''{}''))
         (demo_options (Some (stepCountIs 2))))"
  using stepCountIs_two_turns
    [of _ _ "demo_options (Some (stepCountIs 2))" "demo_env (endpoint_calling ''lookup'' ''{}'')"]
  by (simp add: demo_executing_turns) (simp add: demo_options_def)

text \<open>
  Claim C6 as stated has no condition on the executors. With \<open>stopWhen = stepCountIs(2)\<close>
  and the same endpoint, which asks for the registered tool on every reply, a tool whose
  executor rejects ends the run in the first turn with the executor's error.
\<close>

theorem rejecting_executor_ends_first_turn:
  "stopWhen (rejecting_options (Some (stepCountIs 2))) = Some (stepCountIs 2)
   \<and> registered (tools (rejecting_options (Some (stepCountIs 2)))) ''lookup''
   \<and> round_trips (demo_env (endpoint_calling ''lookup'' ''{}''))
       (rejecting_options (Some (stepCountIs 2))) = 1
   \<and> generateText (demo_env (endpoint_calling ''lookup'' ''{}''))
       (rejecting_options (Some (stepCountIs 2))) = Inl (Error ''tool failed'')"
proof -
  have i: "\<not> shouldStop (initial_state (rejecting_options (Some (stepCountIs 2))))"
    by (simp add: initial_state_def)
  show ?thesis
    by (simp add: round_trips_def run_turns_def generateText_def
        turns_throw[OF i rejecting_step] loop_throw[OF i rejecting_step])
       (simp add: rejecting_options_def registered_def get_tool_def)
qed

section \<open>What generateText returns and throws\<close>

lemma final_text_last:
  "msgs \<noteq> [] \<Longrightarrow>
   final_text msgs = Inr (if role (last msgs) = Assistant then content (last msgs) else [])"
  by (cases msgs rule: rev_cases) (simp_all add: final_text_def)

lemma initial_in_run: "initial_state opts \<in> set (run_turns E opts)"
  by (subst run_turns_def, subst turns.simps) (simp add: initial_state_def)

lemma generateText_throw:
  "loop E opts (build_toolsArray (tools opts)) (initial_state opts) = Inl e \<Longrightarrow>
   generateText E opts = Inl e"
  by (simp add: generateText_def)

lemma generateText_return:
  assumes "loop E opts (build_toolsArray (tools opts)) (initial_state opts) = Inr stf"
  shows "messages stf \<noteq> []
         \<and> generateText E opts =
             Inr (if role (last (messages stf)) = Assistant
                  then content (last (messages stf)) else [])"
proof -
  from loop_messages[OF assms] have ne: "messages stf \<noteq> []"
    by (auto simp: initial_state_def)
  with assms final_text_last[OF ne] show ?thesis
    by (simp add: generateText_def)
qed

subsection \<open>The scripted runs\<close>

lemma saying_step:
  "step (demo_env (endpoint_saying c)) opts ta st =
     Inr \<lparr>messages = messages st @ [assistant_reply c None],
          stepCount = Suc (stepCount st), shouldStop = True\<rparr>"
  by (simp add: step_def demo_env_def endpoint_saying_def assistant_reply_def safety_limit_def)

lemma saying_run:
  "loop (demo_env (endpoint_saying c)) opts ta (initial_state opts) =
     Inr \<lparr>messages = messages (initial_state opts) @ [assistant_reply c None],
          stepCount = Suc 0, shouldStop = True\<rparr>"
proof -
  have "\<not> shouldStop (initial_state opts)" "stepCount (initial_state opts) = 0"
    by (simp_all add: initial_state_def)
  with saying_step[of c opts ta "initial_state opts"] show ?thesis
    by (simp add: loop_step loop_stopped)
qed

lemma failing_step:
  "step (demo_env (endpoint_failing body)) opts ta st =
     Inl (Error (''OpenRouter API error: '' @ body))"
  by (simp add: step_def demo_env_def endpoint_failing_def)

lemma lookup_step:
  "step (demo_env (endpoint_calling ''lookup'' ''{}'')) (demo_options sw) ta st =
     Inr \<lparr>messages = messages st @
            [assistant_reply []
               (Some [\<lparr>call_id = ''call_1'', fn_name = ''lookup'', fn_arguments = ''{}''\<rparr>]),
             \<lparr>role = Tool, content = ''null'', tool_call_id = Some ''call_1'',
              name = Some ''lookup'', tool_calls = None\<rparr>],
          stepCount = Suc (stepCount st),
          shouldStop = safety_limit (Suc (stepCount st))
            (if stop_requested sw (Suc (stepCount st)) then True else shouldStop st)\<rparr>"
  by (simp add: step_def demo_env_def endpoint_calling_def assistant_reply_def
      demo_options_def demo_parse_def get_tool_def demo_tool_def createTool_def
      demo_stringify_def)

lemma lookup_once_step:
  "step (demo_env (endpoint_calling ''lookup'' ''{}'')) (demo_options (Some (stepCountIs 1)))
     ta (initial_state (demo_options (Some (stepCountIs 1)))) =
   Inr \<lparr>messages = messages (initial_state (demo_options (Some (stepCountIs 1)))) @
          [assistant_reply []
             (Some [\<lparr>call_id = ''call_1'', fn_name = ''lookup'', fn_arguments = ''{}''\<rparr>]),
           \<lparr>role = Tool, content = ''null'', tool_call_id = Some ''call_1'',
            name = Some ''lookup'', tool_calls = None\<rparr>],
        stepCount = Suc 0, shouldStop = True\<rparr>"
  by (simp add: lookup_step initial_state_def safety_limit_def stop_requested_def
      stepCountIs_def)

lemma lookup_once_run:
  "loop (demo_env (endpoint_calling ''lookup'' ''{}'')) (demo_options (Some (stepCountIs 1)))
     ta (initial_state (demo_options (Some (stepCountIs 1)))) =
   Inr \<lparr>messages = messages (initial_state (demo_options (Some (stepCountIs 1)))) @
          [assistant_reply []
             (Some [\<lparr>call_id = ''call_1'', fn_name = ''lookup'', fn_arguments = ''{}''\<rparr>]),
           \<lparr>role = Tool, content = ''null'', tool_call_id = Some ''call_1'',
            name = Some ''lookup'', tool_calls = None\<rparr>],
        stepCount = Suc 0, shouldStop = True\<rparr>"
proof -
  have i: "\<not> shouldStop (initial_state (demo_options (Some (stepCountIs 1))))"
    by (simp add: initial_state_def)
  show ?thesis
    by (simp add: loop_step[OF i lookup_once_step] loop_stopped)
qed

lemma calling_reply:
  "reply_at (demo_env (endpoint_calling n a)) opts ta st =
     Some (assistant_reply []
             (Some [\<lparr>call_id = ''call_1'', fn_name = n, fn_arguments = a\<rparr>]))"
  by (simp add: reply_at_def demo_env_def endpoint_calling_def)

lemma bad_arguments_step:
  "step (demo_env (endpoint_calling n ''{oops'')) opts ta st = Inl (SyntaxError ''{oops'')"
  by (simp add: step_def demo_env_def endpoint_calling_def assistant_reply_def
      demo_parse_def)

lemma constructor_step:
  "step (demo_env (endpoint_calling ''constructor'' ''{}'')) (demo_options sw) ta st =
     Inl (TypeError ''tool.execute is not a function'')"
  by (simp add: step_def demo_env_def endpoint_calling_def assistant_reply_def
      demo_options_def demo_parse_def get_tool_def Object_prototype_names_def)

subsection \<open>Claims C8, C9, C10, C5 and C4\<close>

text \<open>
  Claim C8. When a request of \<open>generateText\<close> gets a response that is not \<open>ok\<close>,
  \<open>generateText\<close> throws an \<open>Error\<close> whose message is "OpenRouter API error: "
  followed by the body text, and that request is the last of the run (no request is
  sent twice, none after it). \<open>generateObject\<close>, which sends one request, throws the same
  error when its response is not \<open>ok\<close>.
\<close>

theorem api_error_propagates:
  "(st \<in> set (run_turns E opts)
      \<and> fetch E (text_request opts (build_toolsArray (tools opts)) (messages st)) = NotOk body
    \<longrightarrow> generateText E opts = Inl (Error (''OpenRouter API error: '' @ body))
        \<and> last (run_turns E opts) = st
        \<and> distinct (run_turns E opts))
   \<and> (fetch E (object_request E oopts) = NotOk obody
    \<longrightarrow> generateObject E oopts = Inl (Error (''OpenRouter API error: '' @ obody)))"
proof (intro conjI impI)
  assume h: "st \<in> set (run_turns E opts)
      \<and> fetch E (text_request opts (build_toolsArray (tools opts)) (messages st)) = NotOk body"
  then have "step E opts (build_toolsArray (tools opts)) st
             = Inl (Error (''OpenRouter API error: '' @ body))"
    by (simp add: step_def)
  from throwing_turn_is_last[OF _ this, of "initial_state opts"] h
  show "generateText E opts = Inl (Error (''OpenRouter API error: '' @ body))"
    and "last (run_turns E opts) = st"
    by (simp_all add: run_turns_def generateText_throw)
  show "distinct (run_turns E opts)"
    by (simp add: run_turns_def turns_distinct)
next
  assume "fetch E (object_request E oopts) = NotOk obody"
  then show "generateObject E oopts = Inl (Error (''OpenRouter API error: '' @ obody))"
    by (simp add: generateObject_def)
qed

text \<open>The theorem at an endpoint that answers every request with the body \<open>rate limited\<close>.\<close>

theorem api_error_propagates_witness:
  "generateText (demo_env (endpoint_failing ''rate limited'')) (demo_options None)
     = Inl (Error ''OpenRouter API error: rate limited'')
   \<and> run_turns (demo_env (endpoint_failing ''rate limited'')) (demo_options None)
     = [initial_state (demo_options None)]
   \<and> generateObject (demo_env (endpoint_failing ''rate limited'')) demo_object_options
     = Inl (Error ''OpenRouter API error: rate limited'')"
proof -
  have t: "run_turns (demo_env (endpoint_failing ''rate limited'')) (demo_options None)
     = [initial_state (demo_options None)]"
    by (simp add: run_turns_def turns_throw[OF _ failing_step] initial_state_def)
  have f: "fetch (demo_env (endpoint_failing ''rate limited'')) r = NotOk ''rate limited''" for r
    by (simp add: demo_env_def endpoint_failing_def)
  from api_error_propagates
    [of "initial_state (demo_options None)"
        "demo_env (endpoint_failing ''rate limited'')" "demo_options None" "''rate limited''"
        demo_object_options "''rate limited''"] t f
  show ?thesis by simp
qed

text \<open>
  Claim C9. When \<open>generateText\<close> returns, the loop has ended in a state with a transcript
  that is not empty, and the text returned is the content of the last entry of that
  transcript if its role is assistant, and the empty string otherwise. Whenever the loop
  ends without a throw, \<open>generateText\<close> returns.
\<close>

theorem text_is_last_assistant_content:
  "(generateText E opts = Inr txt
    \<longrightarrow> (\<exists>stf. loop E opts (build_toolsArray (tools opts)) (initial_state opts) = Inr stf
              \<and> messages stf \<noteq> []
              \<and> txt = (if role (last (messages stf)) = Assistant
                       then content (last (messages stf)) else [])))
   \<and> (loop E opts (build_toolsArray (tools opts)) (initial_state opts) = Inr stf'
    \<longrightarrow> (\<exists>t. generateText E opts = Inr t))"
proof (intro conjI impI)
  assume g: "generateText E opts = Inr txt"
  then obtain stf where l: "loop E opts (build_toolsArray (tools opts)) (initial_state opts) = Inr stf"
    by (cases "loop E opts (build_toolsArray (tools opts)) (initial_state opts)")
       (simp_all add: generateText_def)
  from generateText_return[OF l] g l
  show "\<exists>stf. loop E opts (build_toolsArray (tools opts)) (initial_state opts) = Inr stf
              \<and> messages stf \<noteq> []
              \<and> txt = (if role (last (messages stf)) = Assistant
                       then content (last (messages stf)) else [])"
    by auto
next
  assume "loop E opts (build_toolsArray (tools opts)) (initial_state opts) = Inr stf'"
  from generateText_return[OF this] show "\<exists>t. generateText E opts = Inr t" by simp
qed

text \<open>The theorem at an endpoint that answers \<open>Hello\<close>: the text returned is \<open>Hello\<close>.\<close>

theorem text_is_last_assistant_content_witness:
  "generateText (demo_env (endpoint_saying ''Hello'')) (demo_options None) = Inr ''Hello''
   \<and> (\<exists>stf. loop (demo_env (endpoint_saying ''Hello'')) (demo_options None)
               (build_toolsArray (tools (demo_options None)))
               (initial_state (demo_options None)) = Inr stf
            \<and> role (last (messages stf)) = Assistant
            \<and> content (last (messages stf)) = ''Hello'')"
proof -
  have g: "generateText (demo_env (endpoint_saying ''Hello'')) (demo_options None) = Inr ''Hello''"
    by (simp add: generateText_def saying_run final_text_def assistant_reply_def)
  from text_is_last_assistant_content
    [of "demo_env (endpoint_saying ''Hello'')" "demo_options None" "''Hello''"] g
  show ?thesis
    by (simp add: saying_run assistant_reply_def)
qed

text \<open>
  Claim C10. Take a run of \<open>generateText\<close> that returns, and let the reply of its last
  turn contain a call of a registered tool. Then the loop ended because \<open>stopWhen\<close>
  held at the final step count or because that count was 10, the last entry of the
  transcript is a tool message, and the text returned is the empty string.
\<close>

theorem tool_turn_at_the_end_gives_empty_text:
  assumes "generateText E opts = Inr txt"
    and "reply_at E opts (build_toolsArray (tools opts)) (last (run_turns E opts)) = Some m"
    and "calls_registered_tool (tools opts) m"
  shows "txt = []
    \<and> (\<exists>stf. loop E opts (build_toolsArray (tools opts)) (initial_state opts) = Inr stf
             \<and> role (last (messages stf)) = Tool
             \<and> (stop_requested (stopWhen opts) (stepCount stf) \<or> stepCount stf = 10))"
proof -
  let ?ta = "build_toolsArray (tools opts)"
  let ?sp = "last (run_turns E opts)"
  from assms(1) obtain stf where l: "loop E opts ?ta (initial_state opts) = Inr stf"
    by (cases "loop E opts ?ta (initial_state opts)") (simp_all add: generateText_def)
  have i: "\<not> shouldStop (initial_state opts)" "stepCount (initial_state opts) = 0"
    by (simp_all add: initial_state_def)
  from last_turn[OF i(1), of E opts ?ta] l
  have ne: "run_turns E opts \<noteq> []" and st: "step E opts ?ta ?sp = Inr stf"
    by (auto simp: run_turns_def split: sum.splits)
  from ne have "?sp \<in> set (turns E opts ?ta (initial_state opts))"
    by (simp add: run_turns_def)
  from turns_member[OF this] i have sp: "\<not> shouldStop ?sp" "stepCount ?sp < 10"
    by simp_all
  from step_messages[OF st] assms(2,3) obtain tms where
    ms: "messages stf = messages ?sp @ m # tms" and tl: "list_all (\<lambda>t. role t = Tool) tms"
    and tne: "tms \<noteq> []"
    by auto
  from ms tne have la: "last (messages stf) = last tms" by simp
  from tl tne have "role (last tms) = Tool"
    by (simp add: list_all_iff)
  with la have r: "role (last (messages stf)) = Tool" by simp
  from assms(3) have "calls_of m \<noteq> []"
    by (auto simp: calls_registered_tool_def list_ex_iff)
  from step_stop_after_calls[OF st sp(1) assms(2) this] loop_Inr_stopped[OF l]
  have "stop_requested (stopWhen opts) (stepCount stf) \<or> 10 \<le> stepCount stf" by simp
  moreover from step_count[OF st] sp(2) have "stepCount stf \<le> 10" by simp
  ultimately have why: "stop_requested (stopWhen opts) (stepCount stf) \<or> stepCount stf = 10"
    by auto
  from generateText_return[OF l] assms(1) r have "txt = []" by simp
  with l r why show ?thesis by blast
qed

text \<open>
  The theorem at the endpoint that asks for the registered tool, with
  \<open>stopWhen = stepCountIs(1)\<close>: the run ends after the first turn with the empty text.
\<close>

theorem tool_turn_at_the_end_gives_empty_text_witness:
  "generateText (demo_env (endpoint_calling ''lookup'' ''{}''))
     (demo_options (Some (stepCountIs 1))) = Inr []
   \<and> (\<exists>stf. loop (demo_env (endpoint_calling ''lookup'' ''{}''))
               (demo_options (Some (stepCountIs 1)))
               (build_toolsArray (tools (demo_options (Some (stepCountIs 1)))))
               (initial_state (demo_options (Some (stepCountIs 1)))) = Inr stf
            \<and> role (last (messages stf)) = Tool
            \<and> (stop_requested (stopWhen (demo_options (Some (stepCountIs 1)))) (stepCount stf)
               \<or> stepCount stf = 10))"
proof -
  let ?E = "demo_env (endpoint_calling ''lookup'' ''{}'')"
  let ?o = "demo_options (Some (stepCountIs 1))"
  have g: "generateText ?E ?o = Inr []"
    by (simp add: generateText_def lookup_once_run final_text_def)
  have r: "reply_at ?E ?o (build_toolsArray (tools ?o)) (last (run_turns ?E ?o))
           = Some (assistant_reply []
               (Some [\<lparr>call_id = ''call_1'', fn_name = ''lookup'', fn_arguments = ''{}''\<rparr>]))"
    by (rule calling_reply)
  have c: "calls_registered_tool (tools ?o) (assistant_reply []
               (Some [\<lparr>call_id = ''call_1'', fn_name = ''lookup'', fn_arguments = ''{}''\<rparr>]))"
    by (simp add: calls_registered_tool_def calls_of_def assistant_reply_def registered_def
        get_tool_def demo_options_def)
  from tool_turn_at_the_end_gives_empty_text[OF g r c] g show ?thesis by simp
qed

text \<open>
  Claim C5, as the code has it. Let a reply that \<open>generateText\<close> receives contain a
  tool call whose arguments are not valid JSON. Then \<open>generateText\<close> throws and that
  turn is the last: the call is not skipped, whether its tool is registered or not. The
  calls of a reply are processed in order and the first throw is the one propagated: the
  error is the \<open>SyntaxError\<close> of those arguments (the spec's MalformedToolArgs) when
  the calls before it in the same reply are processed without a throw, and otherwise the
  error of the first of them that throws.
\<close>

theorem malformed_tool_arguments_throw:
  assumes "st \<in> set (run_turns E opts)"
    and "fetch E (text_request opts (build_toolsArray (tools opts)) (messages st))
         = HttpOk (m # others)"
    and "tool_calls m = Some (before @ c # after)"
    and "JSON_parse E (fn_arguments c) = None"
  shows "generateText E opts =
           (case run_tool_calls E (tools opts) before (messages st @ [m]) of
              Inl e \<Rightarrow> Inl e
            | Inr msgs' \<Rightarrow> Inl (SyntaxError (fn_arguments c)))
    \<and> (\<exists>e. generateText E opts = Inl e)
    \<and> last (run_turns E opts) = st"
proof -
  let ?ta = "build_toolsArray (tools opts)"
  let ?r = "run_tool_calls E (tools opts) (before @ c # after) (messages st @ [m])"
  have r: "?r = (case run_tool_calls E (tools opts) before (messages st @ [m]) of
                   Inl e \<Rightarrow> Inl e
                 | Inr msgs' \<Rightarrow> Inl (SyntaxError (fn_arguments c)))"
    using assms(4) by (simp add: run_tool_calls_append split: sum.splits)
  obtain x xs where xs: "before @ c # after = x # xs"
    by (cases "before @ c # after") simp_all
  from r obtain e where e: "?r = Inl e" by (auto split: sum.splits)
  have s: "step E opts ?ta st = Inl e"
    using assms(2,3) e unfolding xs
    by (simp add: step_def Let_def del: run_tool_calls.simps)
  from throwing_turn_is_last[OF _ s, of "initial_state opts"] assms(1)
  have t: "generateText E opts = Inl e" "last (run_turns E opts) = st"
    by (simp_all add: run_turns_def generateText_throw)
  have "generateText E opts =
           (case run_tool_calls E (tools opts) before (messages st @ [m]) of
              Inl e \<Rightarrow> Inl e
            | Inr msgs' \<Rightarrow> Inl (SyntaxError (fn_arguments c)))"
  proof (cases "run_tool_calls E (tools opts) before (messages st @ [m])")
    case (Inl e')
    with r e t(1) show ?thesis by simp
  next
    case (Inr msgs')
    with r e t(1) show ?thesis by simp
  qed
  with t show ?thesis by simp
qed

text \<open>
  The theorem at an endpoint that calls the unregistered tool \<open>nope\<close> with the arguments
  \<open>{oops\<close>.
\<close>

theorem malformed_tool_arguments_throw_witness:
  "\<not> registered (tools (demo_options None)) ''nope''
   \<and> JSON_parse (demo_env (endpoint_calling ''nope'' ''{oops'')) ''{oops'' = None
   \<and> generateText (demo_env (endpoint_calling ''nope'' ''{oops'')) (demo_options None)
     = Inl (SyntaxError ''{oops'')
   \<and> last (run_turns (demo_env (endpoint_calling ''nope'' ''{oops'')) (demo_options None))
     = initial_state (demo_options None)"
proof -
  let ?E = "demo_env (endpoint_calling ''nope'' ''{oops'')"
  let ?c = "\<lparr>call_id = ''call_1'', fn_name = ''nope'', fn_arguments = ''{oops''\<rparr>"
  have n: "\<not> registered (tools (demo_options None)) ''nope''"
    by (simp add: registered_def get_tool_def demo_options_def Object_prototype_names_def)
  have f: "fetch ?E (text_request (demo_options None)
              (build_toolsArray (tools (demo_options None)))
              (messages (initial_state (demo_options None))))
           = HttpOk (assistant_reply [] (Some [?c]) # [])"
    by (simp add: demo_env_def endpoint_calling_def)
  have c: "tool_calls (assistant_reply [] (Some [?c])) = Some ([] @ ?c # [])"
    by (simp add: assistant_reply_def)
  have p: "JSON_parse ?E (fn_arguments ?c) = None"
    by (simp add: demo_env_def demo_parse_def)
  from malformed_tool_arguments_throw[OF initial_in_run f c p] n p
  show ?thesis by simp
qed

text \<open>
  Claim C5 as stated says the error thrown is MalformedToolArgs. In a reply whose first
  call names a registered tool with an executor that rejects and whose second call has
  the arguments \<open>{oops\<close>, the executor's error is the one thrown.
\<close>

theorem earlier_throw_is_the_one_thrown:
  "JSON_parse (demo_env (endpoint_calling_two ''lookup'' ''{}'' ''nope'' ''{oops'')) ''{oops''
     = None
   \<and> generateText (demo_env (endpoint_calling_two ''lookup'' ''{}'' ''nope'' ''{oops''))
       (rejecting_options None) = Inl (Error ''tool failed'')"
proof -
  have i: "\<not> shouldStop (initial_state (rejecting_options None))"
    by (simp add: initial_state_def)
  show ?thesis
    by (simp add: generateText_def loop_throw[OF i rejecting_first_step])
       (simp add: demo_env_def demo_parse_def)
qed

text \<open>
  Unregistered tool names. A call whose name is neither registered nor a
  member of \<open>Object.prototype\<close>, and whose arguments parse, is skipped: no message is
  appended for it and nothing is thrown.
\<close>

lemma absent_tool_skipped:
  assumes "get_tool ts (fn_name c) = Absent" and "JSON_parse E (fn_arguments c) = Some a"
  shows "run_tool_calls E ts (c # cs) msgs = run_tool_calls E ts cs msgs"
  using assms by simp

lemma absent_tools_skipped:
  assumes "list_all (\<lambda>c. get_tool ts (fn_name c) = Absent
                         \<and> JSON_parse E (fn_arguments c) \<noteq> None) cs"
  shows "run_tool_calls E ts cs msgs = Inr msgs"
  using assms by (induction cs) auto

lemma get_tool_Absent_iff:
  "(get_tool ts n = Absent) =
     (case ts of
        None \<Rightarrow> True
      | Some entries \<Rightarrow> map_of entries n = None \<and> n \<notin> set Object_prototype_names)"
  by (simp add: get_tool_def split: option.splits)

text \<open>
  The code at the failing input of claim C4: the reply calls the tool \<open>constructor\<close>
  with the arguments \<open>{}\<close>. The name is not registered and the arguments are valid
  JSON, yet \<open>generateText\<close> throws, because the property read of line 175 finds
  \<open>Object.prototype.constructor\<close>.
\<close>

theorem inherited_tool_name_throws:
  "\<not> registered (tools (demo_options None)) ''constructor''
   \<and> JSON_parse (demo_env (endpoint_calling ''constructor'' ''{}'')) ''{}'' = Some (Obj [])
   \<and> generateText (demo_env (endpoint_calling ''constructor'' ''{}'')) (demo_options None)
     = Inl (TypeError ''tool.execute is not a function'')"
proof -
  have i: "\<not> shouldStop (initial_state (demo_options None))"
    by (simp add: initial_state_def)
  have "loop (demo_env (endpoint_calling ''constructor'' ''{}'')) (demo_options None)
          (build_toolsArray (tools (demo_options None))) (initial_state (demo_options None))
        = Inl (TypeError ''tool.execute is not a function'')"
    by (rule loop_throw[OF i constructor_step])
  then show ?thesis
    by (simp add: generateText_throw registered_def get_tool_def demo_options_def
        demo_env_def demo_parse_def)
qed

text \<open>
  A reply whose calls all name tools that are neither registered nor inherited, with
  arguments that parse, adds the assistant message to the transcript and nothing else;
  the loop goes on by its stopping rules.
\<close>

theorem unknown_tools_are_skipped:
  assumes "fetch E (text_request opts ta (messages st)) = HttpOk (m # others)"
    and "tool_calls m = Some (c # cs)"
    and "list_all (\<lambda>c. get_tool (tools opts) (fn_name c) = Absent
                         \<and> JSON_parse E (fn_arguments c) \<noteq> None) (c # cs)"
  shows "step E opts ta st =
           Inr \<lparr>messages = messages st @ [m], stepCount = Suc (stepCount st),
                shouldStop = safety_limit (Suc (stepCount st))
                  (if stop_requested (stopWhen opts) (Suc (stepCount st)) then True
                   else shouldStop st)\<rparr>"
  using assms(1,2) absent_tools_skipped[OF assms(3), of "messages st @ [m]"]
  by (simp add: step_def Let_def del: run_tool_calls.simps)

text \<open>The theorem at an endpoint that calls the unregistered tool \<open>nope\<close>.\<close>

theorem unknown_tools_are_skipped_witness:
  "step (demo_env (endpoint_calling ''nope'' ''{}'')) (demo_options None)
     (build_toolsArray (tools (demo_options None))) (initial_state (demo_options None)) =
   Inr \<lparr>messages = messages (initial_state (demo_options None)) @
          [assistant_reply []
             (Some [\<lparr>call_id = ''call_1'', fn_name = ''nope'', fn_arguments = ''{}''\<rparr>])],
        stepCount = Suc 0, shouldStop = False\<rparr>"
proof -
  let ?E = "demo_env (endpoint_calling ''nope'' ''{}'')"
  let ?c = "\<lparr>call_id = ''call_1'', fn_name = ''nope'', fn_arguments = ''{}''\<rparr>"
  have f: "fetch ?E (text_request (demo_options None)
              (build_toolsArray (tools (demo_options None)))
              (messages (initial_state (demo_options None))))
           = HttpOk (assistant_reply [] (Some [?c]) # [])"
    by (simp add: demo_env_def endpoint_calling_def)
  have c: "tool_calls (assistant_reply [] (Some [?c])) = Some (?c # [])"
    by (simp add: assistant_reply_def)
  have a: "list_all (\<lambda>c. get_tool (tools (demo_options None)) (fn_name c) = Absent
                         \<and> JSON_parse ?E (fn_arguments c) \<noteq> None) (?c # [])"
    by (simp add: get_tool_def demo_options_def Object_prototype_names_def demo_env_def
        demo_parse_def)
  from unknown_tools_are_skipped[OF f c a] show ?thesis
    by (simp add: initial_state_def safety_limit_def stop_requested_def demo_options_def)
qed

section \<open>generateObject\<close>

lemma object_result_keys:
  assumes "safeParse (ZodObject shape uk None) parsed = Inr v" and "uk \<noteq> Passthrough"
  shows "\<exists>kvs. v = Obj kvs \<and> set (map fst kvs) \<subseteq> set (map fst shape)"
proof -
  from assms(1) obtain inp where "parsed = Obj inp"
    by (cases parsed) simp_all
  with assms obtain vs where
    "v = Obj (filter (\<lambda>(key, x). key \<noteq> ''__proto__''
                              \<and> (x \<noteq> Undefined \<or> key \<in> fst ` set inp))
                (zip (map fst shape) vs))"
    by (auto simp: Let_def split: sum.splits if_splits)
  moreover have "set (map fst (filter (\<lambda>(key, x). key \<noteq> ''__proto__''
                              \<and> (x \<noteq> Undefined \<or> key \<in> fst ` set inp))
                (zip (map fst shape) vs))) \<subseteq> set (map fst shape)"
    by (auto dest: set_zip_leftD)
  ultimately show ?thesis by blast
qed

text \<open>
  Claim C3, as the code has it. When the endpoint replies, \<open>generateObject\<close> parses the
  content of the reply and validates the parsed value with the caller's schema. It
  throws the \<open>SyntaxError\<close> of \<open>JSON.parse\<close> (the spec's MalformedResponse) when the
  content is not valid JSON, throws the \<open>ZodError\<close> of the validator (the spec's
  SchemaValidationError) when the parsed value does not validate, and otherwise returns
  the value the validator returns. For an Object schema in Zod's default mode (or in
  strict mode, which rejects them) that value has the declared keys only: a key of the
  parsed value that the schema does not declare is dropped.
\<close>

theorem generateObject_parses_then_validates:
  assumes "fetch E (object_request E opts) = HttpOk (m # others)"
  shows "generateObject E opts =
           (case JSON_parse E (content m) of
              None \<Rightarrow> Inl (SyntaxError (content m))
            | Some parsed \<Rightarrow>
                (case safeParse (schema opts) parsed of
                   Inl issues \<Rightarrow> Inl (ZodError issues)
                 | Inr validated \<Rightarrow> Inr validated))
    \<and> (\<forall>v shape uk. generateObject E opts = Inr v \<and> schema opts = ZodObject shape uk None
                      \<and> uk \<noteq> Passthrough
         \<longrightarrow> (\<exists>kvs. v = Obj kvs \<and> set (map fst kvs) \<subseteq> set (map fst shape)))"
proof -
  have g: "generateObject E opts =
           (case JSON_parse E (content m) of
              None \<Rightarrow> Inl (SyntaxError (content m))
            | Some parsed \<Rightarrow>
                (case safeParse (schema opts) parsed of
                   Inl issues \<Rightarrow> Inl (ZodError issues)
                 | Inr validated \<Rightarrow> Inr validated))"
    using assms by (simp add: generateObject_def)
  have "\<exists>kvs. v = Obj kvs \<and> set (map fst kvs) \<subseteq> set (map fst shape)"
    if "generateObject E opts = Inr v" and "schema opts = ZodObject shape uk None"
      and "uk \<noteq> Passthrough" for v shape uk
  proof -
    from that g obtain parsed where "safeParse (ZodObject shape uk None) parsed = Inr v"
      by (auto split: option.splits sum.splits)
    then show ?thesis using that(3) by (rule object_result_keys)
  qed
  with g show ?thesis by blast
qed

text \<open>
  The theorem at the three replies of the spec, against the schema \<open>{name: string}\<close>:
  \<open>{"name":"X"}\<close> is returned, \<open>{"name":5}\<close> fails validation, \<open>{oops\<close> fails parsing.
\<close>

theorem generateObject_parses_then_validates_witness:
  "generateObject (demo_env (endpoint_saying ''{\"name\":\"X\"}'')) demo_object_options
     = Inr (Obj [(''name'', Str ''X'')])
   \<and> generateObject (demo_env (endpoint_saying ''{\"name\":5}'')) demo_object_options
     = Inl (ZodError [invalid_type])
   \<and> generateObject (demo_env (endpoint_saying ''{oops'')) demo_object_options
     = Inl (SyntaxError ''{oops'')"
proof -
  have f: "fetch (demo_env (endpoint_saying c)) (object_request (demo_env (endpoint_saying c))
             demo_object_options) = HttpOk (assistant_reply c None # [])" for c
    by (simp add: demo_env_def endpoint_saying_def)
  from generateObject_parses_then_validates[OF f[of "''{\"name\":\"X\"}''"]]
    generateObject_parses_then_validates[OF f[of "''{\"name\":5}''"]]
    generateObject_parses_then_validates[OF f[of "''{oops''"]]
  show ?thesis
    by (simp add: demo_env_def demo_parse_def assistant_reply_def demo_object_options_def
        name_schema_def z_object_def z_string_def own_property_def)
qed

text \<open>
  Claim C3 as stated says the object returned is the parsed value. For the reply
  \<open>{"name":"X","extra":1}\<close> the parsed value has two keys and the object returned has
  one.
\<close>

theorem returned_object_is_not_the_parsed_value:
  "JSON_parse (demo_env (endpoint_saying ''{\"name\":\"X\",\"extra\":1}''))
     ''{\"name\":\"X\",\"extra\":1}''
     = Some (Obj [(''name'', Str ''X''), (''extra'', Number 1)])
   \<and> generateObject (demo_env (endpoint_saying ''{\"name\":\"X\",\"extra\":1}''))
       demo_object_options
     = Inr (Obj [(''name'', Str ''X'')])"
  by (simp add: generateObject_def demo_env_def demo_parse_def endpoint_saying_def
      assistant_reply_def demo_object_options_def name_schema_def z_object_def
      z_string_def own_property_def)

end
